theory Spec2Isabelle
  imports Complex_Main
begin

section \<open>The digitize operator (digitize\_op.h, digitize\_op.cc)\<close>

text \<open>
  A shallow embedding of the shape rule, the type rule, the monotonicity check and the
  forward kernel of the \<^verbatim>\<open>digitize\<close> operator.

  Sizes, dimensions and indices are natural numbers: the C++ code keeps them in
  \<^verbatim>\<open>int\<close>, \<^verbatim>\<open>size_t\<close> and \<^verbatim>\<open>dim_t\<close>, and the model covers the
  tensors whose sizes fit those types. The element type \<^verbatim>\<open>DType\<close> selected by the outer
  \<^verbatim>\<open>MSHADOW_TYPE_SWITCH\<close> is the type parameter \<open>'a\<close>, a linear order: this is exact
  for the integer element types and covers the floating types on their ordered values
  (a NaN compares false with everything and is outside the model).
\<close>

subsection \<open>Errors\<close>

text \<open>
  Every failing \<^verbatim>\<open>CHECK\<close> of the source throws; the constructors group them by stage.
  \<open>ArityError\<close> stands for the two \<^verbatim>\<open>CHECK_EQ\<close> on the sizes of the attribute vectors,
  \<open>ShapeError\<close> and \<open>TypeError\<close> carry the message of the failed check of the
  inference rules, \<open>ValidationError\<close> is the failure of \<^verbatim>\<open>CHECK(mono)\<close>.
  The remaining constructors name behaviour that C++ leaves undefined and that the model
  makes visible: an access outside a vector or buffer, a division or modulo by zero, and
  a \<^verbatim>\<open>DType\<close> read of a buffer element that holds an output value. \<open>UnknownType\<close> is
  the default branch of the type switch.
\<close>

datatype error =
    ArityError
  | ShapeError string
  | TypeError string
  | ValidationError
  | OutOfBounds
  | DivByZero
  | BadCell
  | UnknownType

subsection \<open>Parameters\<close>

text \<open>
  \<^verbatim>\<open>DigitizeParam\<close>: the field \<^verbatim>\<open>otype\<close> is declared with \<^verbatim>\<open>add_enum\<close> for exactly four
  names, so the parameter parser admits these four values only. \<open>otype_flag\<close> gives the
  integer each one stands for (the \<^verbatim>\<open>mshadow::TypeFlag\<close> constants, where the floating
  types take 0, 1 and 2, and \<open>-1\<close> means an undefined type).
\<close>

datatype otype_enum = kUint8 | kInt32 | kInt64 | kInt8

fun otype_flag :: "otype_enum \<Rightarrow> int" where
  "otype_flag kUint8 = 3"
| "otype_flag kInt32 = 4"
| "otype_flag kInt8 = 5"
| "otype_flag kInt64 = 6"

record DigitizeParam =
  right :: bool
  otype :: otype_enum

subsection \<open>Shapes and shape inference\<close>

type_synonym TShape = "nat list"

abbreviation ndim :: "TShape \<Rightarrow> nat" where
  "ndim s \<equiv> length s"

text \<open>
  \<^verbatim>\<open>std::equal(first1, last1, first2)\<close> walks the first range and reads the second one
  alongside, stopping at the first difference; reading past the end of the second range
  is undefined.
\<close>

fun std_equal :: "'b list \<Rightarrow> 'b list \<Rightarrow> error + bool" where
  "std_equal [] ys = Inr True"
| "std_equal (x # xs) [] = Inl OutOfBounds"
| "std_equal (x # xs) (y # ys) = (if x = y then std_equal xs ys else Inr False)"

text \<open>
  Modelled from the spec: the macro \<^verbatim>\<open>SHAPE_ASSIGN_CHECK\<close> (operator\_common.h) is not
  part of the sources at hand. Section 4.1 of the specification gives the rule's result
  as \<^verbatim>\<open>output.shape = data.shape\<close>: the macro stores the shape in the given slot of the
  shape array.
\<close>

definition SHAPE_ASSIGN_CHECK :: "TShape list \<Rightarrow> nat \<Rightarrow> TShape \<Rightarrow> error + TShape list" where
  "SHAPE_ASSIGN_CHECK shape_array index shp =
     (if index < length shape_array then Inr (shape_array[index := shp]) else Inl OutOfBounds)"

definition DigitizeOpShape :: "TShape list \<Rightarrow> TShape list \<Rightarrow> error + (bool \<times> TShape list)" where
  "DigitizeOpShape in_attrs out_attrs =
     (if length in_attrs \<noteq> 2 then Inl ArityError
      else if length out_attrs \<noteq> 1 then Inl ArityError
      else
        let data_shape = in_attrs ! 0;
            bin_shape = in_attrs ! 1
        in
          if \<not> ndim data_shape > 0 then Inl (ShapeError ''Data shape undefined'')
          else if \<not> ndim bin_shape > 0 then Inl (ShapeError ''Bin shape undefined'')
          else if ndim bin_shape \<noteq> ndim data_shape then
            Inl (ShapeError ''Bins tensor nust have same number of dimensions than the input data'')
          else
            (case std_equal (butlast bin_shape) data_shape of
               Inl e \<Rightarrow> Inl e
             | Inr False \<Rightarrow>
                 Inl (ShapeError ''First N-1 dimensions of the input data and bins tensors should be the same (N = bins.ndim)'')
             | Inr True \<Rightarrow>
                 (case SHAPE_ASSIGN_CHECK out_attrs 0 data_shape of
                    Inl e \<Rightarrow> Inl e
                  | Inr out_attrs' \<Rightarrow> Inr (True, out_attrs'))))"

subsection \<open>Type inference\<close>

text \<open>
  Modelled from the spec: the macro \<^verbatim>\<open>TYPE_ASSIGN_CHECK\<close> (operator\_common.h) is not
  part of the sources at hand. Section 4.2 of the specification says the rule returns
  the output type as configured: the macro stores the type in the given slot of the type
  array.
\<close>

definition TYPE_ASSIGN_CHECK :: "int list \<Rightarrow> nat \<Rightarrow> int \<Rightarrow> error + int list" where
  "TYPE_ASSIGN_CHECK type_array index type =
     (if index < length type_array then Inr (type_array[index := type]) else Inl OutOfBounds)"

text \<open>
  The rule takes element 0 and element 1 of the input vector before any check; on a
  vector with fewer than two entries that access is outside the vector. The check
  \<^verbatim>\<open>CHECK_EQ(data_type, bins_type)\<close> has no message of its own.
\<close>

definition DigitizeOpType :: "DigitizeParam \<Rightarrow> int list \<Rightarrow> int list \<Rightarrow> error + (bool \<times> int list)" where
  "DigitizeOpType attrs in_attrs out_attrs =
     (if length in_attrs < 2 then Inl OutOfBounds
      else
        let data_type = in_attrs ! 0;
            bins_type = in_attrs ! 1
        in
          if data_type = -1 then Inl (TypeError ''Input data type undefined'')
          else if bins_type = -1 then Inl (TypeError ''Bins type undefined'')
          else if data_type \<noteq> bins_type then Inl (TypeError ''data_type == bins_type'')
          else
            let out_type = otype_flag (otype attrs) in
              if out_type = -1 then Inr (False, out_attrs)
              else
                (case TYPE_ASSIGN_CHECK out_attrs 0 out_type of
                   Inl e \<Rightarrow> Inl e
                 | Inr out_attrs' \<Rightarrow> Inr (True, out_attrs')))"

subsection \<open>Buffers\<close>

text \<open>
  A buffer element holds a value of the input element type or, once the forward kernel
  has written it, a value of the output element type (an integer). The store maps a
  buffer to its elements, and a pointer \<^verbatim>\<open>dptr\<close> names a buffer: two blobs with the same
  \<open>dptr\<close> share their storage, which is how the in-place option of the registration
  shows. Sharing is element by element, so it stands for input and output element types
  of one size.
\<close>

datatype 'a cell = is_DVal: DVal (the_DVal: 'a) | is_OVal: OVal (the_OVal: int)

type_synonym 'a store = "nat \<Rightarrow> 'a cell list"

text \<open>
  The fields of a \<^verbatim>\<open>TBlob\<close> that the operator uses (\<^verbatim>\<open>shape_\<close> and \<^verbatim>\<open>type_flag_\<close> in
  the source).
\<close>

record TBlob =
  dptr :: nat
  shape :: TShape
  type_flag :: int

text \<open>
  Modelled from the spec: \<^verbatim>\<open>TBlob::Size\<close> (tensor\_blob.h) is not part of the sources at
  hand. Section 3 of the specification describes an array as a flat row-major buffer
  with a shape, so its number of elements is the product of the dimensions.
\<close>

definition Size :: "TBlob \<Rightarrow> nat" where
  "Size b = prod_list (shape b)"

definition read_DType :: "'a store \<Rightarrow> nat \<Rightarrow> nat \<Rightarrow> error + 'a" where
  "read_DType st p i =
     (if i < length (st p) then
        (case st p ! i of DVal v \<Rightarrow> Inr v | OVal n \<Rightarrow> Inl BadCell)
      else Inl OutOfBounds)"

definition write_OType :: "'a store \<Rightarrow> nat \<Rightarrow> nat \<Rightarrow> int \<Rightarrow> error + 'a store" where
  "write_OType st p i v =
     (if i < length (st p) then Inr (st(p := (st p)[i := OVal v])) else Inl OutOfBounds)"

subsection \<open>The searches of the standard library\<close>

text \<open>
  \<^verbatim>\<open>std::lower_bound\<close> and \<^verbatim>\<open>std::upper_bound\<close> on a pointer range, as the standard
  library writes them: bisection on the range that starts at offset \<open>first\<close> of buffer
  \<open>p\<close> and has \<open>len\<close> elements, comparing with \<^verbatim>\<open><\<close> only. The result is the offset
  of the element found.
\<close>

fun lower_bound :: "('a::linorder) store \<Rightarrow> nat \<Rightarrow> nat \<Rightarrow> nat \<Rightarrow> 'a \<Rightarrow> error + nat" where
  "lower_bound st p first len val =
     (if len = 0 then Inr first
      else
        (case read_DType st p (first + len div 2) of
           Inl e \<Rightarrow> Inl e
         | Inr middle \<Rightarrow>
             if middle < val then lower_bound st p (first + len div 2 + 1) (len - len div 2 - 1) val
             else lower_bound st p first (len div 2) val))"

fun upper_bound :: "('a::linorder) store \<Rightarrow> nat \<Rightarrow> nat \<Rightarrow> nat \<Rightarrow> 'a \<Rightarrow> error + nat" where
  "upper_bound st p first len val =
     (if len = 0 then Inr first
      else
        (case read_DType st p (first + len div 2) of
           Inl e \<Rightarrow> Inl e
         | Inr middle \<Rightarrow>
             if val < middle then upper_bound st p first (len div 2) val
             else upper_bound st p (first + len div 2 + 1) (len - len div 2 - 1) val))"

declare lower_bound.simps [simp del]
declare upper_bound.simps [simp del]

subsection \<open>The forward kernel\<close>

text \<open>
  \<^verbatim>\<open>static_cast<OType>\<close> of the 64-bit unsigned index: the value modulo the width of the
  output type, read as unsigned for \<^verbatim>\<open>uint8\<close> and in two's complement for the signed
  types.
\<close>

fun static_cast_OType :: "otype_enum \<Rightarrow> int \<Rightarrow> int" where
  "static_cast_OType kUint8 x = x mod 2 ^ 8"
| "static_cast_OType kInt8 x = (x + 2 ^ 7) mod 2 ^ 8 - 2 ^ 7"
| "static_cast_OType kInt32 x = (x + 2 ^ 31) mod 2 ^ 32 - 2 ^ 31"
| "static_cast_OType kInt64 x = (x + 2 ^ 63) mod 2 ^ 64 - 2 ^ 63"

text \<open>
  Lines 134 to 143 of \<^verbatim>\<open>ForwardKernel<cpu>::Map\<close>: the element, its batch, the search in
  the batch's segment of \<open>bins\<close>, and the distance from the start of the segment as a
  64-bit unsigned number.
\<close>

definition ForwardKernel_index ::
  "nat \<Rightarrow> nat \<Rightarrow> nat \<Rightarrow> nat \<Rightarrow> nat \<Rightarrow> bool \<Rightarrow> ('a::linorder) store \<Rightarrow> error + int" where
  "ForwardKernel_index i in_data bins batch_size bins_length right' st =
     (case read_DType st in_data i of
        Inl e \<Rightarrow> Inl e
      | Inr data \<Rightarrow>
          if batch_size = 0 then Inl DivByZero
          else
            let batch_index = i div batch_size;
                begin = bins_length * batch_index
            in
              (case (if right' then lower_bound st bins begin bins_length data
                     else upper_bound st bins begin bins_length data) of
                 Inl e \<Rightarrow> Inl e
               | Inr elem \<Rightarrow> Inr ((int elem - int begin) mod 2 ^ 64)))"

definition ForwardKernel_Map ::
  "otype_enum \<Rightarrow> nat \<Rightarrow> nat \<Rightarrow> nat \<Rightarrow> nat \<Rightarrow> nat \<Rightarrow> bool \<Rightarrow> nat \<Rightarrow> ('a::linorder) store \<Rightarrow> error + 'a store" where
  "ForwardKernel_Map OType in_data out_data bins batch_size bins_length right' i st =
     (case ForwardKernel_index i in_data bins batch_size bins_length right' st of
        Inl e \<Rightarrow> Inl e
      | Inr index \<Rightarrow> write_OType st out_data i (static_cast_OType OType index))"

subsection \<open>The monotonicity check\<close>

definition CheckMonotonicKernel_Map ::
  "('a::linorder) store \<Rightarrow> nat \<Rightarrow> nat \<Rightarrow> nat \<Rightarrow> bool \<Rightarrow> error + bool" where
  "CheckMonotonicKernel_Map st bins_length bins i mono' =
     (if bins_length = 0 then Inl DivByZero
      else if (i + 1) mod bins_length = 0 then Inr mono'
      else
        (case read_DType st bins i of
           Inl e \<Rightarrow> Inl e
         | Inr a \<Rightarrow>
             (case read_DType st bins (i + 1) of
                Inl e \<Rightarrow> Inl e
              | Inr b \<Rightarrow> Inr (if a \<ge> b then False else mono'))))"

subsection \<open>Launching a kernel and the forward driver\<close>

text \<open>
  Modelled from the spec: \<^verbatim>\<open>Kernel<OP, cpu>::Launch\<close> (mxnet\_op.h) is not part of the
  sources at hand. Sections 4.3 to 4.5 of the specification have it run \<^verbatim>\<open>Map\<close> once
  for every index below the launch count; the model runs the indices in increasing order
  and stops at the first fault, keeping the state reached.
\<close>

fun Launch_indices :: "(nat \<Rightarrow> 's \<Rightarrow> error + 's) \<Rightarrow> nat list \<Rightarrow> 's \<Rightarrow> error option \<times> 's" where
  "Launch_indices Map [] s = (None, s)"
| "Launch_indices Map (i # is) s =
     (case Map i s of
        Inl e \<Rightarrow> (Some e, s)
      | Inr s' \<Rightarrow> Launch_indices Map is s')"

definition Launch :: "(nat \<Rightarrow> 's \<Rightarrow> error + 's) \<Rightarrow> nat \<Rightarrow> 's \<Rightarrow> error option \<times> 's" where
  "Launch Map N s = Launch_indices Map [0..<N] s"

text \<open>
  The inner \<^verbatim>\<open>MSHADOW_TYPE_SWITCH\<close> picks \<^verbatim>\<open>OType\<close> from the flag of the output blob.
  The model follows it for the four integer flags that type inference can give the
  output and reports every other flag as \<open>UnknownType\<close>.
\<close>

definition OType_SWITCH :: "int \<Rightarrow> otype_enum option" where
  "OType_SWITCH flag =
     (if flag = 3 then Some kUint8
      else if flag = 4 then Some kInt32
      else if flag = 5 then Some kInt8
      else if flag = 6 then Some kInt64
      else None)"

text \<open>
  \<^verbatim>\<open>DigitizeOpForward\<close>: the result is the error thrown, if any, and the store the call
  leaves behind.
\<close>

definition DigitizeOpForward ::
  "DigitizeParam \<Rightarrow> TBlob list \<Rightarrow> TBlob list \<Rightarrow> ('a::linorder) store \<Rightarrow> error option \<times> 'a store" where
  "DigitizeOpForward attrs inputs outputs st =
     (if length inputs < 2 then (Some OutOfBounds, st)
      else
        let data = inputs ! 0;
            bins = inputs ! 1
        in
          if ndim (shape bins) = 0 then (Some OutOfBounds, st)
          else
            let bins_length = shape bins ! (ndim (shape bins) - 1) in
              (case Launch (CheckMonotonicKernel_Map st bins_length (dptr bins)) (Size bins) True of
                 (Some e, mono') \<Rightarrow> (Some e, st)
               | (None, mono') \<Rightarrow>
                   if \<not> mono' then (Some ValidationError, st)
                   else if length outputs < 1 then (Some OutOfBounds, st)
                   else
                     (case OType_SWITCH (type_flag (outputs ! 0)) of
                        None \<Rightarrow> (Some UnknownType, st)
                      | Some OType \<Rightarrow>
                          if ndim (shape data) = 0 then (Some OutOfBounds, st)
                          else
                            let batch_size = shape data ! (ndim (shape data) - 1) in
                              Launch (ForwardKernel_Map OType (dptr data) (dptr (outputs ! 0)) (dptr bins)
                                        batch_size bins_length (right attrs))
                                     (Size (outputs ! 0)) st)))"

subsection \<open>The registration\<close>

text \<open>
  What \<^verbatim>\<open>NNVM_REGISTER_OP(digitize)\<close> declares: the number of inputs and outputs, the
  names of the inputs, and the pairs of input and output that may share storage.
\<close>

record op_registration =
  num_inputs :: nat
  num_outputs :: nat
  FListInputNames :: "string list"
  FInplaceOption :: "(nat \<times> nat) list"

definition digitize :: op_registration where
  "digitize = \<lparr> num_inputs = 1, num_outputs = 1,
                FListInputNames = [''data''], FInplaceOption = [(0, 0)] \<rparr>"

subsection \<open>Well-formed calls and the quantities the specification speaks of\<close>

text \<open>
  The last dimension of a blob, the number of batches (the product of the leading
  dimensions), the values a buffer holds from an offset on, the bin edges of one batch
  and the value of one element of \<open>data\<close>.
\<close>

definition last_dim :: "TBlob \<Rightarrow> nat" where
  "last_dim b = shape b ! (ndim (shape b) - 1)"

definition num_batches :: "TBlob \<Rightarrow> nat" where
  "num_batches b = prod_list (butlast (shape b))"

definition segment :: "'a store \<Rightarrow> nat \<Rightarrow> nat \<Rightarrow> nat \<Rightarrow> 'a list" where
  "segment st p first len = map (\<lambda>k. the_DVal (st p ! k)) [first..<first + len]"

definition batch_segment :: "'a store \<Rightarrow> TBlob \<Rightarrow> nat \<Rightarrow> 'a list" where
  "batch_segment st bins b = segment st (dptr bins) (b * last_dim bins) (last_dim bins)"

definition data_value :: "'a store \<Rightarrow> TBlob \<Rightarrow> nat \<Rightarrow> 'a" where
  "data_value st data i = the_DVal (st (dptr data) ! i)"

definition strictly_increasing :: "('a::linorder) list \<Rightarrow> bool" where
  "strictly_increasing xs = sorted_wrt (<) xs"

definition bins_strictly_increasing :: "('a::linorder) store \<Rightarrow> TBlob \<Rightarrow> bool" where
  "bins_strictly_increasing st bins =
     list_all (\<lambda>b. strictly_increasing (batch_segment st bins b)) [0..<num_batches bins]"

text \<open>
  The number of bin edges the specification counts: the edges strictly below the value
  when \<open>right\<close> is set, the edges below or equal to it otherwise.
\<close>

definition count_edges :: "bool \<Rightarrow> ('a::linorder) list \<Rightarrow> 'a \<Rightarrow> nat" where
  "count_edges right' edges v = length (filter (\<lambda>e. if right' then e < v else e \<le> v) edges)"

text \<open>
  A well-formed call: the shapes are the ones shape inference accepts and derives (rank
  at least one, equal ranks, equal leading dimensions, the output shaped like \<open>data\<close>),
  the output blob has the configured output type, every buffer has as many elements as
  its shape says, \<open>data\<close> and \<open>bins\<close> hold input values, and the output does not share
  storage with \<open>bins\<close>. The output may share storage with \<open>data\<close>.
\<close>

definition well_formed :: "DigitizeParam \<Rightarrow> TBlob \<Rightarrow> TBlob \<Rightarrow> TBlob \<Rightarrow> 'a store \<Rightarrow> bool" where
  "well_formed attrs data bins out st \<longleftrightarrow>
     shape data \<noteq> [] \<and>
     ndim (shape bins) = ndim (shape data) \<and>
     butlast (shape bins) = butlast (shape data) \<and>
     shape out = shape data \<and>
     type_flag out = otype_flag (otype attrs) \<and>
     length (st (dptr data)) = Size data \<and>
     length (st (dptr bins)) = Size bins \<and>
     length (st (dptr out)) = Size out \<and>
     list_all is_DVal (st (dptr data)) \<and>
     list_all is_DVal (st (dptr bins)) \<and>
     dptr out \<noteq> dptr bins"

text \<open>
  The bucket of element \<open>i\<close> of \<open>data\<close> as the specification defines it: the number of
  edges counted in the segment of the batch of \<open>i\<close>, the batch being the row of \<open>i\<close> in
  the row-major layout.
\<close>

definition bucket :: "DigitizeParam \<Rightarrow> ('a::linorder) store \<Rightarrow> TBlob \<Rightarrow> TBlob \<Rightarrow> nat \<Rightarrow> nat" where
  "bucket attrs st data bins i =
     count_edges (right attrs) (batch_segment st bins (i div last_dim data)) (data_value st data i)"

text \<open>
  The bins of one batch are numbered from 0 to the number of edges: bin 0 lies below the
  first edge, bin \<open>k\<close> between the edges at positions \<open>k - 1\<close> and \<open>k\<close>, and the last bin
  above the last edge. So the edge at position \<open>k\<close> has bin \<open>k\<close> on its left and bin
  \<open>k + 1\<close> on its right.
\<close>

definition bin_left_of_edge :: "nat \<Rightarrow> nat" where
  "bin_left_of_edge k = k"

definition bin_right_of_edge :: "nat \<Rightarrow> nat" where
  "bin_right_of_edge k = k + 1"

subsection \<open>The tie-break scenario of the specification\<close>

text \<open>
  One batch, \<open>data = [2.0]\<close> in buffer 0, \<open>bins = [1.0, 2.0, 3.0]\<close> in buffer 1 and an
  output of one element in buffer 2.
\<close>

definition tie_store :: "real store" where
  "tie_store = (\<lambda>p. [])(0 := [DVal 2], 1 := [DVal 1, DVal 2, DVal 3], 2 := [OVal 0])"

definition tie_data :: TBlob where
  "tie_data = \<lparr> dptr = 0, shape = [1], type_flag = 0 \<rparr>"

definition tie_bins :: TBlob where
  "tie_bins = \<lparr> dptr = 1, shape = [3], type_flag = 0 \<rparr>"

definition tie_out :: "otype_enum \<Rightarrow> TBlob" where
  "tie_out OType = \<lparr> dptr = 2, shape = [1], type_flag = otype_flag OType \<rparr>"

subsection \<open>A scenario with two batches\<close>

text \<open>
  \<open>data\<close> of shape \<open>(2, 3)\<close> in buffer 0, \<open>bins\<close> of shape \<open>(2, 4)\<close> in buffer 1 and
  the output in buffer 2; \<open>rows_alias\<close> is the output blob placed on the buffer of
  \<open>data\<close>. In \<open>flat_store\<close> the first row of \<open>bins\<close> repeats an edge.
\<close>

definition rows_store :: "real store" where
  "rows_store = (\<lambda>p. [])
     (0 := [DVal (1 / 2), DVal 2, DVal 10, DVal 15, DVal 20, DVal 45],
      1 := [DVal 1, DVal 2, DVal 3, DVal 4, DVal 10, DVal 20, DVal 30, DVal 40],
      2 := [OVal 0, OVal 0, OVal 0, OVal 0, OVal 0, OVal 0])"

definition flat_store :: "real store" where
  "flat_store = (\<lambda>p. [])
     (0 := [DVal (1 / 2), DVal 2, DVal 10, DVal 15, DVal 20, DVal 45],
      1 := [DVal 1, DVal 2, DVal 2, DVal 4, DVal 10, DVal 20, DVal 30, DVal 40],
      2 := [OVal 0, OVal 0, OVal 0, OVal 0, OVal 0, OVal 0])"

definition rows_data :: TBlob where
  "rows_data = \<lparr> dptr = 0, shape = [2, 3], type_flag = 0 \<rparr>"

definition rows_bins :: TBlob where
  "rows_bins = \<lparr> dptr = 1, shape = [2, 4], type_flag = 0 \<rparr>"

definition rows_out :: TBlob where
  "rows_out = \<lparr> dptr = 2, shape = [2, 3], type_flag = 4 \<rparr>"

definition rows_alias :: TBlob where
  "rows_alias = \<lparr> dptr = 0, shape = [2, 3], type_flag = 4 \<rparr>"

definition left_attrs :: DigitizeParam where
  "left_attrs = \<lparr> right = False, otype = kInt32 \<rparr>"

definition right_attrs :: DigitizeParam where
  "right_attrs = \<lparr> right = True, otype = kInt32 \<rparr>"

lemmas rows_defs =
  rows_store_def flat_store_def rows_data_def rows_bins_def rows_out_def rows_alias_def
  left_attrs_def right_attrs_def

lemmas quantity_defs =
  well_formed_def bins_strictly_increasing_def strictly_increasing_def batch_segment_def
  segment_def num_batches_def last_dim_def Size_def data_value_def bucket_def count_edges_def

lemmas forward_defs =
  DigitizeOpForward_def Launch_def CheckMonotonicKernel_Map_def read_DType_def
  OType_SWITCH_def ForwardKernel_Map_def ForwardKernel_index_def write_OType_def

section \<open>Shape and type inference\<close>

lemma std_equal_take:
  "length xs \<le> length ys \<Longrightarrow> std_equal xs ys = Inr (xs = take (length xs) ys)"
  by (induction xs ys rule: std_equal.induct) auto

lemma butlast_eq_iff_nth:
  assumes "length xs = length ys"
  shows "butlast xs = butlast ys \<longleftrightarrow> (\<forall>k < length xs - 1. xs ! k = ys ! k)"
  using assms by (auto simp: list_eq_iff_nth_eq nth_butlast)

lemma DigitizeOpShape_checked:
  "DigitizeOpShape [data_shape, bin_shape] [out_shape] =
     (if ndim data_shape = 0 then Inl (ShapeError ''Data shape undefined'')
      else if ndim bin_shape = 0 then Inl (ShapeError ''Bin shape undefined'')
      else if ndim bin_shape \<noteq> ndim data_shape then
        Inl (ShapeError ''Bins tensor nust have same number of dimensions than the input data'')
      else if butlast bin_shape \<noteq> butlast data_shape then
        Inl (ShapeError ''First N-1 dimensions of the input data and bins tensors should be the same (N = bins.ndim)'')
      else Inr (True, [data_shape]))"
proof -
  have "std_equal (butlast bin_shape) data_shape = Inr (butlast bin_shape = butlast data_shape)"
    if "ndim bin_shape = ndim data_shape"
    using that by (simp add: std_equal_take butlast_conv_take)
  then show ?thesis
    by (simp add: DigitizeOpShape_def SHAPE_ASSIGN_CHECK_def)
qed

text \<open>
  Claim C4. Called with the shapes of \<open>data\<close> and \<open>bins\<close> and one output slot, the
  shape rule fails with a shape error when \<open>data\<close> or \<open>bins\<close> has rank 0, when the two
  ranks differ, or when one of the first rank-1 dimensions of \<open>data\<close> differs from the
  same dimension of \<open>bins\<close>; in every other case it succeeds and the output shape is the
  shape of \<open>data\<close>, dimension for dimension.
\<close>

theorem DigitizeOpShape_rule:
  "(ndim data_shape = 0 \<or> ndim bin_shape = 0 \<or> ndim data_shape \<noteq> ndim bin_shape \<or>
      (\<exists>k < ndim data_shape - 1. data_shape ! k \<noteq> bin_shape ! k)
     \<longrightarrow> (\<exists>msg. DigitizeOpShape [data_shape, bin_shape] [out_shape] = Inl (ShapeError msg))) \<and>
   (\<not> (ndim data_shape = 0 \<or> ndim bin_shape = 0 \<or> ndim data_shape \<noteq> ndim bin_shape \<or>
      (\<exists>k < ndim data_shape - 1. data_shape ! k \<noteq> bin_shape ! k))
     \<longrightarrow> DigitizeOpShape [data_shape, bin_shape] [out_shape] = Inr (True, [data_shape]))"
proof (cases "ndim data_shape = ndim bin_shape")
  case True
  then have "butlast bin_shape \<noteq> butlast data_shape \<longleftrightarrow>
      (\<exists>k < ndim data_shape - 1. data_shape ! k \<noteq> bin_shape ! k)"
    using butlast_eq_iff_nth [of bin_shape data_shape] by auto
  with True show ?thesis
    by (simp add: DigitizeOpShape_checked)
next
  case False
  then show ?thesis
    by (simp add: DigitizeOpShape_checked)
qed

theorem DigitizeOpShape_rule_witness:
  "DigitizeOpShape [[4, 5], [3, 6]] [[]] =
     Inl (ShapeError ''First N-1 dimensions of the input data and bins tensors should be the same (N = bins.ndim)'') \<and>
   DigitizeOpShape [[2, 3], [2, 4]] [[]] = Inr (True, [[2, 3]])"
proof -
  have "\<exists>k < ndim [4, 5::nat] - 1. [4, 5::nat] ! k \<noteq> [3, 6] ! k"
    by (rule exI [of _ 0]) simp
  then have "\<exists>msg. DigitizeOpShape [[4, 5], [3, 6]] [[]] = Inl (ShapeError msg)"
    using DigitizeOpShape_rule [of "[4, 5]" "[3, 6]" "[]"] by blast
  moreover have "\<not> (\<exists>k < ndim [2, 3::nat] - 1. [2, 3::nat] ! k \<noteq> [2, 4] ! k)"
    by simp
  then have "DigitizeOpShape [[2, 3], [2, 4]] [[]] = Inr (True, [[2, 3]])"
    using DigitizeOpShape_rule [of "[2, 3]" "[2, 4]" "[]"] by simp
  ultimately show ?thesis
    by (auto simp: DigitizeOpShape_checked)
qed

text \<open>
  Claim C5. Called with the element types of \<open>data\<close> and \<open>bins\<close> and one output slot,
  the type rule fails with a type error when either type is undefined (\<open>-1\<close>) or when
  the two differ; in every other case it succeeds and the output type is the configured
  \<open>otype\<close>, whatever the shared input type is.
\<close>

theorem DigitizeOpType_rule:
  "(data_type = -1 \<or> bins_type = -1 \<or> data_type \<noteq> bins_type
      \<longrightarrow> (\<exists>msg. DigitizeOpType attrs [data_type, bins_type] [out_type] = Inl (TypeError msg))) \<and>
   (\<not> (data_type = -1 \<or> bins_type = -1 \<or> data_type \<noteq> bins_type)
      \<longrightarrow> DigitizeOpType attrs [data_type, bins_type] [out_type] = Inr (True, [otype_flag (otype attrs)]))"
  by (cases "otype attrs") (simp_all add: DigitizeOpType_def TYPE_ASSIGN_CHECK_def)

theorem DigitizeOpType_rule_witness:
  "DigitizeOpType \<lparr> right = False, otype = kInt32 \<rparr> [0, 1] [-1] = Inl (TypeError ''data_type == bins_type'') \<and>
   DigitizeOpType \<lparr> right = False, otype = kInt64 \<rparr> [0, 0] [-1] = Inr (True, [6]) \<and>
   DigitizeOpType \<lparr> right = False, otype = kInt64 \<rparr> [1, 1] [-1] = Inr (True, [6])"
  using DigitizeOpType_rule [of 0 1 "\<lparr> right = False, otype = kInt32 \<rparr>" "-1"]
    DigitizeOpType_rule [of 0 0 "\<lparr> right = False, otype = kInt64 \<rparr>" "-1"]
    DigitizeOpType_rule [of 1 1 "\<lparr> right = False, otype = kInt64 \<rparr>" "-1"]
  by (simp add: DigitizeOpType_def)

text \<open>
  Claim C10. The shape rule can only succeed on exactly two input shapes and one output
  shape, and the type rule takes the second input type without checking that there is
  one. The registration declares one input, named \<open>data\<close>: on attribute vectors of the
  registered length the shape rule fails its arity check and the type rule reads outside
  its input vector.
\<close>

theorem registered_arity:
  "(DigitizeOpShape in_shapes out_shapes = Inr r \<longrightarrow> length in_shapes = 2 \<and> length out_shapes = 1) \<and>
   (length in_types < 2 \<longrightarrow> DigitizeOpType attrs in_types out_types = Inl OutOfBounds) \<and>
   num_inputs digitize = 1 \<and> FListInputNames digitize = [''data''] \<and>
   (length in_shapes = num_inputs digitize \<longrightarrow> DigitizeOpShape in_shapes out_shapes = Inl ArityError) \<and>
   (length in_types = num_inputs digitize \<longrightarrow> DigitizeOpType attrs in_types out_types = Inl OutOfBounds)"
  by (auto simp: DigitizeOpShape_def DigitizeOpType_def digitize_def split: if_splits)

theorem registered_arity_witness:
  "length [[2, 3::nat]] = num_inputs digitize \<and> length [0::int] = num_inputs digitize \<and> length [0::int] < 2 \<and>
   DigitizeOpShape [[2, 3]] [[]] = Inl ArityError \<and>
   DigitizeOpType \<lparr> right = False, otype = kInt32 \<rparr> [0] [-1] = Inl OutOfBounds \<and>
   DigitizeOpShape [[2, 3], [2, 4]] [[]] = Inr (True, [[2, 3]]) \<and> length [[2, 3::nat], [2, 4]] = 2 \<and> length [[]::nat list] = 1"
  using registered_arity [of "[[2, 3]]" "[[]]" "(True, [[2, 3]])" "[0]" "\<lparr> right = False, otype = kInt32 \<rparr>" "[-1]"]
    registered_arity [of "[[2, 3], [2, 4]]" "[[]]" "(True, [[2, 3]])" "[0]" "\<lparr> right = False, otype = kInt32 \<rparr>" "[-1]"]
  by (simp add: digitize_def DigitizeOpShape_checked)

section \<open>The forward computation\<close>

subsection \<open>The searches on a sorted segment\<close>

lemma read_DType_cell:
  "i < length (st p) \<Longrightarrow> is_DVal (st p ! i) \<Longrightarrow> read_DType st p i = Inr (the_DVal (st p ! i))"
  by (cases "st p ! i") (auto simp: read_DType_def)

lemma read_DType_DVal:
  "i < length (st p) \<Longrightarrow> list_all is_DVal (st p) \<Longrightarrow> read_DType st p i = Inr (the_DVal (st p ! i))"
  by (simp add: read_DType_cell list_all_length)

lemma segment_Nil [simp]: "segment st p first 0 = []"
  by (simp add: segment_def)

lemma length_segment [simp]: "length (segment st p first len) = len"
  by (simp add: segment_def)

lemma nth_segment: "k < len \<Longrightarrow> segment st p first len ! k = the_DVal (st p ! (first + k))"
  by (simp add: segment_def)

lemma segment_split:
  assumes "h < len"
  shows "segment st p first len =
    segment st p first h @ the_DVal (st p ! (first + h)) # segment st p (first + h + 1) (len - h - 1)"
proof -
  have "[first..<first + h + (len - h)] = [first..<first + h] @ [first + h..<first + h + (len - h)]"
    by (rule upt_add_eq_append) simp
  moreover have "[first + h..<first + len] = (first + h) # [first + h + 1..<first + len]"
    using assms by (simp add: upt_conv_Cons)
  ultimately have "[first..<first + len] = [first..<first + h] @ (first + h) # [first + h + 1..<first + len]"
    using assms by simp
  moreover have "first + h + 1 + (len - h - 1) = first + len"
    using assms by simp
  ultimately show ?thesis
    by (simp add: segment_def)
qed

lemma lower_bound_sorted:
  assumes "first + len \<le> length (st p)" "list_all is_DVal (st p)" "sorted (segment st p first len)"
  shows "lower_bound st p first len v = Inr (first + length (filter (\<lambda>e. e < v) (segment st p first len)))"
  using assms
proof (induction st p first len v rule: lower_bound.induct)
  case (1 st p first len v)
  show ?case
  proof (cases "len = 0")
    case True
    then show ?thesis by (simp add: lower_bound.simps)
  next
    case False
    define h where "h = len div 2"
    define m where "m = the_DVal (st p ! (first + h))"
    let ?lo = "segment st p first h"
    let ?hi = "segment st p (first + h + 1) (len - h - 1)"
    have h: "h < len" using False by (simp add: h_def)
    have rd: "read_DType st p (first + len div 2) = Inr m"
      using h "1.prems" by (simp add: read_DType_DVal m_def h_def)
    have split: "segment st p first len = ?lo @ m # ?hi"
      using segment_split [OF h] by (simp add: m_def)
    have srt: "sorted ?lo" "sorted ?hi" "\<forall>e \<in> set ?lo. e \<le> m" "\<forall>e \<in> set ?hi. m \<le> e"
      using "1.prems"(3) unfolding split by (auto simp: sorted_append)
    show ?thesis
    proof (cases "m < v")
      case True
      have "lower_bound st p (first + len div 2 + 1) (len - len div 2 - 1) v =
          Inr (first + len div 2 + 1 + length (filter (\<lambda>e. e < v) (segment st p (first + len div 2 + 1) (len - len div 2 - 1))))"
        using "1.IH"(1) [OF False rd True] h "1.prems"(1,2) srt(2) by (simp add: h_def)
      moreover have "filter (\<lambda>e. e < v) ?lo = ?lo"
        using srt(3) True by (auto simp: filter_id_conv)
      ultimately show ?thesis
        using False rd True unfolding split
        by (subst lower_bound.simps) (simp add: h_def)
    next
      case nless: False
      have "lower_bound st p first (len div 2) v =
          Inr (first + length (filter (\<lambda>e. e < v) (segment st p first (len div 2))))"
        using "1.IH"(2) [OF False rd nless] h "1.prems"(1,2) srt(1) by (simp add: h_def)
      moreover have "filter (\<lambda>e. e < v) ?hi = []"
        using srt(4) nless by (auto simp: filter_empty_conv)
      ultimately show ?thesis
        using False rd nless unfolding split
        by (subst lower_bound.simps) (simp add: h_def)
    qed
  qed
qed

lemma upper_bound_sorted:
  assumes "first + len \<le> length (st p)" "list_all is_DVal (st p)" "sorted (segment st p first len)"
  shows "upper_bound st p first len v = Inr (first + length (filter (\<lambda>e. e \<le> v) (segment st p first len)))"
  using assms
proof (induction st p first len v rule: upper_bound.induct)
  case (1 st p first len v)
  show ?case
  proof (cases "len = 0")
    case True
    then show ?thesis by (simp add: upper_bound.simps)
  next
    case False
    define h where "h = len div 2"
    define m where "m = the_DVal (st p ! (first + h))"
    let ?lo = "segment st p first h"
    let ?hi = "segment st p (first + h + 1) (len - h - 1)"
    have h: "h < len" using False by (simp add: h_def)
    have rd: "read_DType st p (first + len div 2) = Inr m"
      using h "1.prems" by (simp add: read_DType_DVal m_def h_def)
    have split: "segment st p first len = ?lo @ m # ?hi"
      using segment_split [OF h] by (simp add: m_def)
    have srt: "sorted ?lo" "sorted ?hi" "\<forall>e \<in> set ?lo. e \<le> m" "\<forall>e \<in> set ?hi. m \<le> e"
      using "1.prems"(3) unfolding split by (auto simp: sorted_append)
    show ?thesis
    proof (cases "v < m")
      case True
      have "upper_bound st p first (len div 2) v =
          Inr (first + length (filter (\<lambda>e. e \<le> v) (segment st p first (len div 2))))"
        using "1.IH"(1) [OF False rd True] h "1.prems"(1,2) srt(1) by (simp add: h_def)
      moreover have "filter (\<lambda>e. e \<le> v) ?hi = []"
        using srt(4) True by (auto simp: filter_empty_conv)
      ultimately show ?thesis
        using False rd True unfolding split
        by (subst upper_bound.simps) (simp add: h_def)
    next
      case nless: False
      have "upper_bound st p (first + len div 2 + 1) (len - len div 2 - 1) v =
          Inr (first + len div 2 + 1 + length (filter (\<lambda>e. e \<le> v) (segment st p (first + len div 2 + 1) (len - len div 2 - 1))))"
        using "1.IH"(2) [OF False rd nless] h "1.prems"(1,2) srt(2) by (simp add: h_def)
      moreover have "filter (\<lambda>e. e \<le> v) ?lo = ?lo"
        using srt(3) nless by (auto simp: filter_id_conv)
      ultimately show ?thesis
        using False rd nless unfolding split
        by (subst upper_bound.simps) (simp add: h_def)
    qed
  qed
qed

lemma lower_bound_total:
  assumes "first + len \<le> length (st p)" "list_all is_DVal (st p)"
  shows "\<exists>r. lower_bound st p first len v = Inr r \<and> first \<le> r \<and> r \<le> first + len"
  using assms
proof (induction st p first len v rule: lower_bound.induct)
  case (1 st p first len v)
  show ?case
  proof (cases "len = 0")
    case True
    then show ?thesis by (simp add: lower_bound.simps)
  next
    case False
    define m where "m = the_DVal (st p ! (first + len div 2))"
    have h: "len div 2 < len" using False by simp
    have rd: "read_DType st p (first + len div 2) = Inr m"
      using h "1.prems" by (simp add: read_DType_DVal m_def)
    show ?thesis
    proof (cases "m < v")
      case True
      obtain r where "lower_bound st p (first + len div 2 + 1) (len - len div 2 - 1) v = Inr r"
        "first + len div 2 + 1 \<le> r" "r \<le> first + len div 2 + 1 + (len - len div 2 - 1)"
        using "1.IH"(1) [OF False rd True] h "1.prems" by auto
      then show ?thesis
        using False rd True h by (subst lower_bound.simps) simp
    next
      case nless: False
      obtain r where "lower_bound st p first (len div 2) v = Inr r"
        "first \<le> r" "r \<le> first + len div 2"
        using "1.IH"(2) [OF False rd nless] h "1.prems" by auto
      then show ?thesis
        using False rd nless h by (subst lower_bound.simps) simp
    qed
  qed
qed

lemma upper_bound_total:
  assumes "first + len \<le> length (st p)" "list_all is_DVal (st p)"
  shows "\<exists>r. upper_bound st p first len v = Inr r \<and> first \<le> r \<and> r \<le> first + len"
  using assms
proof (induction st p first len v rule: upper_bound.induct)
  case (1 st p first len v)
  show ?case
  proof (cases "len = 0")
    case True
    then show ?thesis by (simp add: upper_bound.simps)
  next
    case False
    define m where "m = the_DVal (st p ! (first + len div 2))"
    have h: "len div 2 < len" using False by simp
    have rd: "read_DType st p (first + len div 2) = Inr m"
      using h "1.prems" by (simp add: read_DType_DVal m_def)
    show ?thesis
    proof (cases "v < m")
      case True
      obtain r where "upper_bound st p first (len div 2) v = Inr r"
        "first \<le> r" "r \<le> first + len div 2"
        using "1.IH"(1) [OF False rd True] h "1.prems" by auto
      then show ?thesis
        using False rd True h by (subst upper_bound.simps) simp
    next
      case nless: False
      obtain r where "upper_bound st p (first + len div 2 + 1) (len - len div 2 - 1) v = Inr r"
        "first + len div 2 + 1 \<le> r" "r \<le> first + len div 2 + 1 + (len - len div 2 - 1)"
        using "1.IH"(2) [OF False rd nless] h "1.prems" by auto
      then show ?thesis
        using False rd nless h by (subst upper_bound.simps) simp
    qed
  qed
qed

subsection \<open>The monotonicity check\<close>

lemma segment_cong: "st p = st' p \<Longrightarrow> segment st p first len = segment st' p first len"
  by (simp add: segment_def)

lemma successor_in_bounds:
  assumes "L dvd n" "i < n" "(i + 1) mod L \<noteq> 0"
  shows "i + 1 < (n::nat)"
proof (rule ccontr)
  assume "\<not> i + 1 < n"
  with assms(2) have "i + 1 = n" by simp
  with assms(1) have "(i + 1) mod L = 0" by auto
  with assms(3) show False by simp
qed

lemma CheckMonotonicKernel_Map_eval:
  assumes "0 < L" "L dvd length (st p)" "i < length (st p)" "list_all is_DVal (st p)"
  shows "CheckMonotonicKernel_Map st L p i m =
    Inr (m \<and> ((i + 1) mod L = 0 \<or> the_DVal (st p ! i) < the_DVal (st p ! (i + 1))))"
proof (cases "(i + 1) mod L = 0")
  case True
  with assms(1) show ?thesis by (simp add: CheckMonotonicKernel_Map_def)
next
  case False
  then have "i + 1 < length (st p)"
    using successor_in_bounds assms(2,3) by blast
  with False assms show ?thesis
    by (auto simp: CheckMonotonicKernel_Map_def read_DType_DVal)
qed

lemma Launch_indices_CheckMonotonic:
  assumes "0 < L" "L dvd length (st p)" "\<forall>i \<in> set is. i < length (st p)" "list_all is_DVal (st p)"
  shows "Launch_indices (CheckMonotonicKernel_Map st L p) is m =
    (None, m \<and> (\<forall>i \<in> set is. (i + 1) mod L = 0 \<or> the_DVal (st p ! i) < the_DVal (st p ! (i + 1))))"
  using assms(3)
proof (induction "is" arbitrary: m)
  case Nil
  then show ?case by simp
next
  case (Cons i "is")
  have "CheckMonotonicKernel_Map st L p i m =
      Inr (m \<and> ((i + 1) mod L = 0 \<or> the_DVal (st p ! i) < the_DVal (st p ! (i + 1))))"
    using Cons.prems assms(1,2,4) by (intro CheckMonotonicKernel_Map_eval) simp_all
  moreover have "\<forall>i \<in> set is. i < length (st p)"
    using Cons.prems by simp
  ultimately show ?case
    using Cons.IH by simp
qed

lemma Size_split:
  "shape b \<noteq> [] \<Longrightarrow> Size b = num_batches b * last_dim b"
proof -
  assume ne: "shape b \<noteq> []"
  have "prod_list (butlast (shape b) @ [last (shape b)]) = prod_list (butlast (shape b)) * last (shape b)"
    by simp
  with ne have "prod_list (shape b) = prod_list (butlast (shape b)) * last (shape b)"
    by simp
  with ne show ?thesis
    by (simp add: Size_def num_batches_def last_dim_def last_conv_nth)
qed

lemma block_index_mod:
  assumes "Suc k < L"
  shows "(b * L + k + 1) mod L \<noteq> (0::nat)"
proof -
  have "(b * L + Suc k) mod L = Suc k mod L"
    by (metis add.commute mod_mult_self1)
  also have "\<dots> = Suc k" using assms by simp
  finally show ?thesis by simp
qed

lemma block_index_less:
  assumes "b < nb" "Suc k < L"
  shows "b * L + k < nb * (L::nat)"
proof -
  have "Suc b * L \<le> nb * L"
    using assms(1) by (intro mult_le_mono1) simp
  then have "b * L + L \<le> nb * L" by simp
  with assms(2) show ?thesis by linarith
qed

lemma not_boundary_mod:
  assumes "0 < (L::nat)" "(i + 1) mod L \<noteq> 0"
  shows "Suc (i mod L) < L"
proof -
  have "i mod L < L" using assms by simp
  moreover have "Suc (i mod L) \<noteq> L"
  proof
    assume *: "Suc (i mod L) = L"
    have "Suc i mod L = (if Suc (i mod L) = L then 0 else Suc (i mod L))"
      by (rule mod_Suc)
    with * have "Suc i mod L = 0"
      by metis
    with assms show False by simp
  qed
  ultimately show ?thesis by simp
qed

lemma segment_pair_at:
  fixes st :: "('a::linorder) store"
  assumes "Suc (i mod L) < L"
  shows "segment st p (i div L * L) L ! (i mod L) < segment st p (i div L * L) L ! Suc (i mod L)
    \<longleftrightarrow> the_DVal (st p ! i) < the_DVal (st p ! (i + 1))"
proof -
  have eq: "i div L * L + i mod L = i" by simp
  have "segment st p (i div L * L) L ! (i mod L) = the_DVal (st p ! (i div L * L + i mod L))"
    using assms by (intro nth_segment) simp
  moreover have "segment st p (i div L * L) L ! Suc (i mod L) = the_DVal (st p ! (i div L * L + Suc (i mod L)))"
    using assms by (intro nth_segment)
  moreover have "i div L * L + Suc (i mod L) = i + 1"
    using eq by simp
  ultimately show ?thesis
    using eq by simp
qed

lemma adjacent_pairs_iff_segments:
  fixes st :: "('a::linorder) store"
  assumes "0 < L"
  shows "(\<forall>i < nb * L. (i + 1) mod L = 0 \<or> the_DVal (st p ! i) < the_DVal (st p ! (i + 1))) \<longleftrightarrow>
    (\<forall>b < nb. \<forall>k. Suc k < L \<longrightarrow> segment st p (b * L) L ! k < segment st p (b * L) L ! Suc k)"
    (is "?pairs \<longleftrightarrow> ?segs")
proof
  assume pairs: ?pairs
  show ?segs
  proof (intro allI impI)
    fix b k
    assume b: "b < nb" and k: "Suc k < L"
    have "b * L + k < nb * L"
      using b k by (rule block_index_less)
    then have "(b * L + k + 1) mod L = 0 \<or> the_DVal (st p ! (b * L + k)) < the_DVal (st p ! (b * L + k + 1))"
      using pairs [rule_format, of "b * L + k"] by simp
    moreover have "(b * L + k + 1) mod L \<noteq> 0"
      using k by (rule block_index_mod)
    ultimately have "the_DVal (st p ! (b * L + k)) < the_DVal (st p ! (b * L + k + 1))"
      by simp
    moreover have "segment st p (b * L) L ! k = the_DVal (st p ! (b * L + k))"
      using k by (simp add: nth_segment)
    moreover have "segment st p (b * L) L ! Suc k = the_DVal (st p ! (b * L + k + 1))"
      using k by (simp add: nth_segment)
    ultimately show "segment st p (b * L) L ! k < segment st p (b * L) L ! Suc k"
      by simp
  qed
next
  assume segs: ?segs
  show ?pairs
  proof (intro allI impI)
    fix i
    assume i: "i < nb * L"
    show "(i + 1) mod L = 0 \<or> the_DVal (st p ! i) < the_DVal (st p ! (i + 1))"
    proof (cases "(i + 1) mod L = 0")
      case True
      then show ?thesis by simp
    next
      case False
      have b: "i div L < nb"
        using i assms by (simp add: less_mult_imp_div_less)
      have k: "Suc (i mod L) < L"
        using assms False by (rule not_boundary_mod)
      have "segment st p (i div L * L) L ! (i mod L) < segment st p (i div L * L) L ! Suc (i mod L)"
        using segs [rule_format, of "i div L" "i mod L"] b k by simp
      then have "the_DVal (st p ! i) < the_DVal (st p ! (i + 1))"
        by (simp only: segment_pair_at [OF k])
      then show ?thesis ..
    qed
  qed
qed

lemma strictly_increasing_nth:
  "strictly_increasing xs \<longleftrightarrow> (\<forall>k. Suc k < length xs \<longrightarrow> xs ! k < xs ! Suc k)"
  unfolding strictly_increasing_def
  by (rule sorted_wrt_iff_nth_Suc_transp) (auto simp: transp_on_def)

subsection \<open>The forward kernel on one element\<close>

lemma mod_word_then_narrow:
  assumes "n \<le> 64"
  shows "(x mod 2 ^ 64 + k) mod 2 ^ n = (x + k) mod (2 ^ n :: int)"
proof -
  have "(2::int) ^ n dvd 2 ^ 64"
    using assms by (rule le_imp_power_dvd)
  then have "x mod 2 ^ 64 mod 2 ^ n = x mod (2 ^ n :: int)"
    by (rule mod_mod_cancel)
  then show ?thesis
    by (metis mod_add_left_eq)
qed

lemma static_cast_OType_uint64:
  "static_cast_OType OType (x mod 2 ^ 64) = static_cast_OType OType x"
proof (cases OType)
  case kUint8
  then show ?thesis using mod_word_then_narrow [of 8 x 0] by simp
next
  case kInt32
  then show ?thesis using mod_word_then_narrow [of 32 x "2 ^ 31"] by simp
next
  case kInt64
  then show ?thesis using mod_word_then_narrow [of 64 x "2 ^ 63"] by simp
next
  case kInt8
  then show ?thesis using mod_word_then_narrow [of 8 x "2 ^ 7"] by simp
qed

lemma static_cast_OType_uint64_numeral:
  "static_cast_OType OType (x mod 18446744073709551616) = static_cast_OType OType x"
  using static_cast_OType_uint64 [of OType x] by simp

lemma ForwardKernel_index_sorted:
  fixes st :: "('a::linorder) store"
  assumes "i < length (st d)" "is_DVal (st d ! i)" "0 < bs"
    "L * (i div bs) + L \<le> length (st b)" "list_all is_DVal (st b)"
    "sorted (segment st b (L * (i div bs)) L)"
  shows "ForwardKernel_index i d b bs L r st =
    Inr (int (count_edges r (segment st b (L * (i div bs)) L) (the_DVal (st d ! i))) mod 2 ^ 64)"
proof -
  have rd: "read_DType st d i = Inr (the_DVal (st d ! i))"
    using assms(1,2) by (rule read_DType_cell)
  show ?thesis
  proof (cases r)
    case True
    then show ?thesis
      using assms(3) lower_bound_sorted [where st = st and p = b, OF assms(4,5,6)]
      by (simp add: ForwardKernel_index_def rd count_edges_def)
  next
    case False
    then show ?thesis
      using assms(3) upper_bound_sorted [where st = st and p = b, OF assms(4,5,6)]
      by (simp add: ForwardKernel_index_def rd count_edges_def)
  qed
qed

lemma ForwardKernel_Map_sorted:
  fixes st :: "('a::linorder) store"
  assumes "i < length (st d)" "is_DVal (st d ! i)" "0 < bs"
    "L * (i div bs) + L \<le> length (st b)" "list_all is_DVal (st b)"
    "sorted (segment st b (L * (i div bs)) L)" "i < length (st out)"
  shows "ForwardKernel_Map OType d out b bs L r i st =
    Inr (st(out := (st out)[i := OVal (static_cast_OType OType
      (int (count_edges r (segment st b (L * (i div bs)) L) (the_DVal (st d ! i)))))]))"
  using assms(7) ForwardKernel_index_sorted [OF assms(1-6)]
  by (simp add: ForwardKernel_Map_def write_OType_def static_cast_OType_uint64_numeral)

lemma ForwardKernel_index_total:
  fixes st :: "('a::linorder) store"
  assumes "i < length (st d)" "is_DVal (st d ! i)" "0 < bs"
    "L * (i div bs) + L \<le> length (st b)" "list_all is_DVal (st b)"
  shows "\<exists>index. ForwardKernel_index i d b bs L r st = Inr index \<and> 0 \<le> index \<and> index \<le> int L"
proof -
  define bg where "bg = L * (i div bs)"
  have rd: "read_DType st d i = Inr (the_DVal (st d ! i))"
    using assms(1,2) by (rule read_DType_cell)
  have bound: "bg + L \<le> length (st b)"
    using assms(4) by (simp add: bg_def)
  obtain e where e: "(if r then lower_bound st b bg L (the_DVal (st d ! i))
      else upper_bound st b bg L (the_DVal (st d ! i))) = Inr e"
    "bg \<le> e" "e \<le> bg + L"
    using lower_bound_total [where st = st and p = b, OF bound assms(5)]
      upper_bound_total [where st = st and p = b, OF bound assms(5)]
    by (cases r) auto
  have nonneg: "0 \<le> int e - int bg"
    using e(2) by linarith
  then have "(int e - int bg) mod 2 ^ 64 \<le> int e - int bg"
    by (rule zmod_le_nonneg_dividend)
  moreover have "0 \<le> (int e - int bg) mod 2 ^ 64"
    by simp
  moreover have "int e - int bg \<le> int L"
    using e(3) by linarith
  moreover have "ForwardKernel_index i d b bs L r st = Inr ((int e - int bg) mod 2 ^ 64)"
    using assms(3) e(1) by (simp add: ForwardKernel_index_def rd bg_def [symmetric])
  ultimately show ?thesis
    by (intro exI [of _ "(int e - int bg) mod 2 ^ 64"]) linarith
qed

subsection \<open>The forward launch\<close>

lemma Launch_indices_Forward:
  fixes st0 :: "('a::linorder) store"
  assumes bins: "list_all is_DVal (st0 b)" and ob: "out \<noteq> b"
    and idx: "\<forall>i \<in> set is. i < n \<and> 0 < bs \<and> L * (i div bs) + L \<le> length (st0 b) \<and>
        sorted (segment st0 b (L * (i div bs)) L) \<and> is_DVal (st0 d ! i)"
    and dist: "distinct is"
    and cur: "st b = st0 b" "length (st out) = n" "length (st d) = n"
        "\<forall>i \<in> set is. st d ! i = st0 d ! i"
  shows "\<exists>st'. Launch_indices (ForwardKernel_Map OType d out b bs L r) is st = (None, st') \<and>
      (\<forall>q. q \<noteq> out \<longrightarrow> st' q = st q) \<and> length (st' out) = n \<and>
      (\<forall>i \<in> set is. st' out ! i = OVal (static_cast_OType OType
         (int (count_edges r (segment st0 b (L * (i div bs)) L) (the_DVal (st0 d ! i)))))) \<and>
      (\<forall>i. i \<notin> set is \<longrightarrow> st' out ! i = st out ! i)"
  using idx dist cur
proof (induction "is" arbitrary: st)
  case Nil
  then show ?case by simp
next
  case (Cons i "is")
  define v where "v = static_cast_OType OType
    (int (count_edges r (segment st0 b (L * (i div bs)) L) (the_DVal (st0 d ! i))))"
  define st1 where "st1 = st(out := (st out)[i := OVal v])"
  have i: "i < n" "0 < bs" "L * (i div bs) + L \<le> length (st0 b)"
    "sorted (segment st0 b (L * (i div bs)) L)" "is_DVal (st0 d ! i)" "i \<notin> set is"
    using Cons.prems(1,2) by simp_all
  have cell: "st d ! i = st0 d ! i"
    using Cons.prems(6) by simp
  have seg: "segment st b (L * (i div bs)) L = segment st0 b (L * (i div bs)) L"
    using Cons.prems(3) by (rule segment_cong)
  have step: "ForwardKernel_Map OType d out b bs L r i st = Inr st1"
  proof -
    have "ForwardKernel_Map OType d out b bs L r i st =
        Inr (st(out := (st out)[i := OVal (static_cast_OType OType
          (int (count_edges r (segment st b (L * (i div bs)) L) (the_DVal (st d ! i)))))]))"
    proof (rule ForwardKernel_Map_sorted)
      show "i < length (st d)" using i(1) Cons.prems(5) by simp
      show "is_DVal (st d ! i)" using i(5) cell by simp
      show "0 < bs" by (rule i(2))
      show "L * (i div bs) + L \<le> length (st b)" using i(3) Cons.prems(3) by simp
      show "list_all is_DVal (st b)" using bins Cons.prems(3) by simp
      show "sorted (segment st b (L * (i div bs)) L)" using i(4) seg by simp
      show "i < length (st out)" using i(1) Cons.prems(4) by simp
    qed
    then show ?thesis
      by (simp add: st1_def v_def seg cell)
  qed
  have rest: "\<forall>j \<in> set is. j < n \<and> 0 < bs \<and> L * (j div bs) + L \<le> length (st0 b) \<and>
        sorted (segment st0 b (L * (j div bs)) L) \<and> is_DVal (st0 d ! j)"
    using Cons.prems(1) by simp
  have dist': "distinct is"
    using Cons.prems(2) by simp
  have c1: "st1 b = st0 b"
    using Cons.prems(3) ob by (simp add: st1_def)
  have c2: "length (st1 out) = n"
    using Cons.prems(4) by (simp add: st1_def)
  have c3: "length (st1 d) = n"
    using Cons.prems(4,5) by (cases "d = out") (simp_all add: st1_def)
  have c4: "\<forall>j \<in> set is. st1 d ! j = st0 d ! j"
  proof
    fix j assume j: "j \<in> set is"
    then have "j \<noteq> i" using i(6) by auto
    then have "st1 d ! j = st d ! j"
      by (simp add: st1_def)
    with j Cons.prems(6) show "st1 d ! j = st0 d ! j" by simp
  qed
  obtain st' where st': "Launch_indices (ForwardKernel_Map OType d out b bs L r) is st1 = (None, st')"
    "\<forall>q. q \<noteq> out \<longrightarrow> st' q = st1 q" "length (st' out) = n"
    "\<forall>j \<in> set is. st' out ! j = OVal (static_cast_OType OType
         (int (count_edges r (segment st0 b (L * (j div bs)) L) (the_DVal (st0 d ! j)))))"
    "\<forall>j. j \<notin> set is \<longrightarrow> st' out ! j = st1 out ! j"
    using Cons.IH [OF rest dist' c1 c2 c3 c4] by blast
  have run: "Launch_indices (ForwardKernel_Map OType d out b bs L r) (i # is) st = (None, st')"
    using step st'(1) by simp
  have frame: "\<forall>q. q \<noteq> out \<longrightarrow> st' q = st q"
    using st'(2) by (simp add: st1_def)
  have at_i: "st' out ! i = OVal v"
    using st'(5) i(1,6) Cons.prems(4) by (simp add: st1_def)
  have others: "\<forall>j. j \<notin> set (i # is) \<longrightarrow> st' out ! j = st out ! j"
    using st'(5) by (simp add: st1_def)
  have written: "\<forall>j \<in> set (i # is). st' out ! j = OVal (static_cast_OType OType
         (int (count_edges r (segment st0 b (L * (j div bs)) L) (the_DVal (st0 d ! j)))))"
    using at_i st'(4) by (simp add: v_def)
  show ?case
    using run frame st'(3) written others by blast
qed

subsection \<open>The forward driver on a well-formed call\<close>

lemma well_formed_sizes:
  assumes "well_formed attrs data bins out st"
  shows "Size data = num_batches data * last_dim data"
    and "Size bins = num_batches data * last_dim bins"
    and "Size out = Size data"
    and "num_batches bins = num_batches data"
proof -
  have ne: "shape data \<noteq> []" "shape bins \<noteq> []"
    using assms by (auto simp: well_formed_def)
  show "Size data = num_batches data * last_dim data"
    using ne(1) by (rule Size_split)
  show nb: "num_batches bins = num_batches data"
    using assms by (simp add: well_formed_def num_batches_def)
  show "Size bins = num_batches data * last_dim bins"
    using Size_split [OF ne(2)] nb by simp
  show "Size out = Size data"
    using assms by (simp add: well_formed_def Size_def)
qed

lemma ball_upt: "(\<forall>i \<in> {0..<n::nat}. P i) \<longleftrightarrow> (\<forall>i < n. P i)"
  by auto

lemma bins_strictly_increasing_iff:
  "bins_strictly_increasing st bins \<longleftrightarrow>
    (\<forall>b < num_batches bins. \<forall>k. Suc k < last_dim bins \<longrightarrow>
       batch_segment st bins b ! k < batch_segment st bins b ! Suc k)"
  by (simp add: bins_strictly_increasing_def list_all_iff strictly_increasing_nth batch_segment_def ball_upt)

lemma mono_phase:
  fixes st :: "('a::linorder) store"
  assumes "well_formed attrs data bins out st"
  shows "Launch (CheckMonotonicKernel_Map st (last_dim bins) (dptr bins)) (Size bins) True =
    (None, bins_strictly_increasing st bins)"
proof (cases "last_dim bins = 0")
  case True
  then have "Size bins = 0"
    using well_formed_sizes(2) [OF assms] by simp
  moreover have "bins_strictly_increasing st bins"
    using True by (simp add: bins_strictly_increasing_iff)
  ultimately show ?thesis
    by (simp add: Launch_def)
next
  case False
  define L where "L = last_dim bins"
  define nb where "nb = num_batches bins"
  have L: "0 < L" using False by (simp add: L_def)
  have len: "length (st (dptr bins)) = nb * L"
    using assms well_formed_sizes(2,4) [OF assms] by (simp add: well_formed_def L_def nb_def)
  have dv: "list_all is_DVal (st (dptr bins))"
    using assms by (simp add: well_formed_def)
  have "Launch_indices (CheckMonotonicKernel_Map st L (dptr bins)) [0..<nb * L] True =
      (None, True \<and> (\<forall>i \<in> set [0..<nb * L]. (i + 1) mod L = 0 \<or>
         the_DVal (st (dptr bins) ! i) < the_DVal (st (dptr bins) ! (i + 1))))"
    using L len dv by (intro Launch_indices_CheckMonotonic) simp_all
  moreover have "(\<forall>i \<in> set [0..<nb * L]. (i + 1) mod L = 0 \<or>
         the_DVal (st (dptr bins) ! i) < the_DVal (st (dptr bins) ! (i + 1))) \<longleftrightarrow>
      bins_strictly_increasing st bins"
    using adjacent_pairs_iff_segments [OF L, of nb st "dptr bins"]
    by (simp add: bins_strictly_increasing_iff batch_segment_def L_def nb_def ball_upt)
  moreover have "Size bins = nb * L"
    using assms len by (simp add: well_formed_def)
  ultimately show ?thesis
    by (simp add: Launch_def L_def)
qed

lemma OType_SWITCH_otype_flag: "OType_SWITCH (otype_flag OType) = Some OType"
  by (cases OType) (simp_all add: OType_SWITCH_def)

lemma DigitizeOpForward_well_formed:
  fixes st :: "('a::linorder) store"
  assumes "well_formed attrs data bins out st"
  shows "DigitizeOpForward attrs [data, bins] [out] st =
    (if bins_strictly_increasing st bins then
       Launch (ForwardKernel_Map (otype attrs) (dptr data) (dptr out) (dptr bins)
                 (last_dim data) (last_dim bins) (right attrs)) (Size out) st
     else (Some ValidationError, st))"
proof -
  have "shape data \<noteq> []" "shape bins \<noteq> []" "type_flag out = otype_flag (otype attrs)"
    using assms by (auto simp: well_formed_def)
  then show ?thesis
    using mono_phase [OF assms]
    by (simp add: DigitizeOpForward_def OType_SWITCH_otype_flag last_dim_def)
qed

lemma forward_phase:
  fixes st :: "('a::linorder) store"
  assumes wf: "well_formed attrs data bins out st" and inc: "bins_strictly_increasing st bins"
  shows "\<exists>st'. Launch (ForwardKernel_Map (otype attrs) (dptr data) (dptr out) (dptr bins)
                 (last_dim data) (last_dim bins) (right attrs)) (Size out) st = (None, st') \<and>
      (\<forall>q. q \<noteq> dptr out \<longrightarrow> st' q = st q) \<and> length (st' (dptr out)) = Size out \<and>
      (\<forall>i < Size out. st' (dptr out) ! i =
         OVal (static_cast_OType (otype attrs) (int (bucket attrs st data bins i))))"
proof -
  define L where "L = last_dim bins"
  define bs where "bs = last_dim data"
  define nb where "nb = num_batches data"
  define n where "n = Size out"
  have sizes: "n = nb * bs" "length (st (dptr bins)) = nb * L" "length (st (dptr data)) = n"
    "length (st (dptr out)) = n" "num_batches bins = nb"
    using wf well_formed_sizes [OF wf] by (simp_all add: well_formed_def L_def bs_def nb_def n_def)
  have dv: "list_all is_DVal (st (dptr bins))" "list_all is_DVal (st (dptr data))"
    and ob: "dptr out \<noteq> dptr bins"
    using wf by (simp_all add: well_formed_def)
  have idx: "\<forall>i \<in> set [0..<n]. i < n \<and> 0 < bs \<and> L * (i div bs) + L \<le> length (st (dptr bins)) \<and>
      sorted (segment st (dptr bins) (L * (i div bs)) L) \<and> is_DVal (st (dptr data) ! i)"
  proof
    fix i assume "i \<in> set [0..<n]"
    then have i: "i < n" by simp
    then have bs: "0 < bs"
      using sizes(1) by (cases "bs = 0") simp_all
    have b: "i div bs < nb"
      using i bs sizes(1) by (simp add: less_mult_imp_div_less)
    then have "Suc (i div bs) * L \<le> nb * L"
      by (intro mult_le_mono1) simp
    then have fit: "L * (i div bs) + L \<le> length (st (dptr bins))"
      using sizes(2) by (simp add: mult.commute)
    have "strictly_increasing (batch_segment st bins (i div bs))"
      using inc b sizes(5) by (simp add: bins_strictly_increasing_def list_all_iff)
    then have "sorted (batch_segment st bins (i div bs))"
      by (simp add: strictly_increasing_def strict_sorted_imp_sorted)
    then have srt: "sorted (segment st (dptr bins) (L * (i div bs)) L)"
      by (simp add: batch_segment_def L_def mult.commute)
    have "is_DVal (st (dptr data) ! i)"
      using dv(2) i sizes(3) by (simp add: list_all_length)
    with i bs fit srt
    show "i < n \<and> 0 < bs \<and> L * (i div bs) + L \<le> length (st (dptr bins)) \<and>
      sorted (segment st (dptr bins) (L * (i div bs)) L) \<and> is_DVal (st (dptr data) ! i)"
      by simp
  qed
  have "\<exists>st'. Launch_indices (ForwardKernel_Map (otype attrs) (dptr data) (dptr out) (dptr bins) bs L (right attrs))
        [0..<n] st = (None, st') \<and>
      (\<forall>q. q \<noteq> dptr out \<longrightarrow> st' q = st q) \<and> length (st' (dptr out)) = n \<and>
      (\<forall>i \<in> set [0..<n]. st' (dptr out) ! i = OVal (static_cast_OType (otype attrs)
         (int (count_edges (right attrs) (segment st (dptr bins) (L * (i div bs)) L)
            (the_DVal (st (dptr data) ! i)))))) \<and>
      (\<forall>i. i \<notin> set [0..<n] \<longrightarrow> st' (dptr out) ! i = st (dptr out) ! i)"
    using dv(1) ob idx sizes(3,4)
    by (intro Launch_indices_Forward) simp_all
  then obtain st' where st': "Launch_indices (ForwardKernel_Map (otype attrs) (dptr data) (dptr out) (dptr bins) bs L (right attrs))
        [0..<n] st = (None, st')"
      "\<forall>q. q \<noteq> dptr out \<longrightarrow> st' q = st q" "length (st' (dptr out)) = n"
      "\<forall>i \<in> set [0..<n]. st' (dptr out) ! i = OVal (static_cast_OType (otype attrs)
         (int (count_edges (right attrs) (segment st (dptr bins) (L * (i div bs)) L)
            (the_DVal (st (dptr data) ! i)))))"
    by blast
  have "\<forall>i < Size out. st' (dptr out) ! i =
         OVal (static_cast_OType (otype attrs) (int (bucket attrs st data bins i)))"
    using st'(4)
    by (simp add: bucket_def batch_segment_def data_value_def L_def bs_def n_def mult.commute)
  with st'(1,2,3) show ?thesis
    by (auto simp: Launch_def L_def bs_def n_def)
qed

subsection \<open>The two-batch scenario is well-formed\<close>

lemma rows_well_formed:
  "well_formed left_attrs rows_data rows_bins rows_out rows_store"
  "well_formed right_attrs rows_data rows_bins rows_out rows_store"
  "well_formed left_attrs rows_data rows_bins rows_alias rows_store"
  "well_formed left_attrs rows_data rows_bins rows_out flat_store"
  by (simp_all add: quantity_defs rows_defs)

lemma rows_increasing:
  "bins_strictly_increasing rows_store rows_bins"
  "\<not> bins_strictly_increasing flat_store rows_bins"
  by (simp_all add: quantity_defs rows_defs upt_rec)

lemma rows_buckets:
  "bucket left_attrs rows_store rows_data rows_bins 4 = 2"
  "bucket right_attrs rows_store rows_data rows_bins 4 = 1"
  by (simp_all add: quantity_defs rows_defs upt_rec)

subsection \<open>What a well-formed call computes\<close>

lemma well_formed_index:
  fixes st :: "('a::linorder) store"
  assumes wf: "well_formed attrs data bins out st" and i: "i < Size out"
  shows "i < length (st (dptr data))"
    and "is_DVal (st (dptr data) ! i)"
    and "0 < last_dim data"
    and "last_dim bins * (i div last_dim data) + last_dim bins \<le> length (st (dptr bins))"
    and "i < length (st (dptr out))"
    and "i div last_dim data < num_batches bins"
proof -
  have sizes: "Size out = num_batches data * last_dim data"
    "length (st (dptr bins)) = num_batches data * last_dim bins"
    "length (st (dptr data)) = Size out" "length (st (dptr out)) = Size out"
    "num_batches bins = num_batches data"
    using wf well_formed_sizes [OF wf] by (simp_all add: well_formed_def)
  show "i < length (st (dptr data))" "i < length (st (dptr out))"
    using i sizes(3,4) by simp_all
  then show "is_DVal (st (dptr data) ! i)"
    using wf by (simp add: well_formed_def list_all_length)
  show bs: "0 < last_dim data"
    using i sizes(1) by (cases "last_dim data = 0") simp_all
  show b: "i div last_dim data < num_batches bins"
    using i bs sizes(1,5) by (simp add: less_mult_imp_div_less)
  then have "Suc (i div last_dim data) * last_dim bins \<le> num_batches data * last_dim bins"
    using sizes(5) by (intro mult_le_mono1) simp
  then show "last_dim bins * (i div last_dim data) + last_dim bins \<le> length (st (dptr bins))"
    using sizes(2) by (simp add: mult.commute)
qed

lemma bins_strictly_increasing_flat:
  fixes st :: "('a::linorder) store"
  assumes "well_formed attrs data bins out st"
  shows "bins_strictly_increasing st bins \<longleftrightarrow>
    (\<forall>i < Size bins. (i + 1) mod last_dim bins = 0 \<or>
       the_DVal (st (dptr bins) ! i) < the_DVal (st (dptr bins) ! (i + 1)))"
proof (cases "last_dim bins = 0")
  case True
  then have "Size bins = 0"
    using well_formed_sizes(2) [OF assms] by simp
  moreover have "bins_strictly_increasing st bins"
    using True by (simp add: bins_strictly_increasing_iff)
  ultimately show ?thesis by simp
next
  case False
  then have L: "0 < last_dim bins" by simp
  have "Size bins = num_batches bins * last_dim bins"
    using well_formed_sizes(2,4) [OF assms] by simp
  then show ?thesis
    using adjacent_pairs_iff_segments [OF L, of "num_batches bins" st "dptr bins"]
    by (simp add: bins_strictly_increasing_iff batch_segment_def)
qed

lemma count_edges_at_edge:
  fixes xs :: "('a::linorder) list"
  assumes "strictly_increasing xs" "k < length xs"
  shows "count_edges True xs (xs ! k) = k" and "count_edges False xs (xs ! k) = Suc k"
proof -
  define lo where "lo = take k xs"
  define hi where "hi = drop (Suc k) xs"
  have xs: "xs = lo @ xs ! k # hi"
    using assms(2) by (simp add: lo_def hi_def id_take_nth_drop)
  have "sorted_wrt (<) (lo @ xs ! k # hi)"
    using assms(1) xs by (simp add: strictly_increasing_def)
  then have lo: "\<forall>e \<in> set lo. e < xs ! k" and hi: "\<forall>e \<in> set hi. xs ! k < e"
    by (auto simp: sorted_wrt_append)
  have len: "length lo = k"
    using assms(2) by (simp add: lo_def)
  have "filter (\<lambda>e. e < xs ! k) lo = lo" "filter (\<lambda>e. e \<le> xs ! k) lo = lo"
    using lo by (auto simp: filter_id_conv)
  moreover have "filter (\<lambda>e. e < xs ! k) hi = []" "filter (\<lambda>e. e \<le> xs ! k) hi = []"
    using hi by (auto simp: filter_empty_conv)
  ultimately have "length (filter (\<lambda>e. e < xs ! k) (lo @ xs ! k # hi)) = k"
    and "length (filter (\<lambda>e. e \<le> xs ! k) (lo @ xs ! k # hi)) = Suc k"
    using len by simp_all
  then show "count_edges True xs (xs ! k) = k" and "count_edges False xs (xs ! k) = Suc k"
    using xs by (simp_all add: count_edges_def)
qed

lemma forward_run:
  fixes st :: "('a::linorder) store"
  assumes "well_formed attrs data bins out st" "bins_strictly_increasing st bins"
  shows "\<exists>st'. DigitizeOpForward attrs [data, bins] [out] st = (None, st') \<and>
      (\<forall>q. q \<noteq> dptr out \<longrightarrow> st' q = st q) \<and> length (st' (dptr out)) = Size out \<and>
      (\<forall>i < Size out. st' (dptr out) ! i =
         OVal (static_cast_OType (otype attrs) (int (bucket attrs st data bins i))))"
  using forward_phase [OF assms] assms(2)
  by (simp add: DigitizeOpForward_well_formed [OF assms(1)])

subsection \<open>The claims on the forward call\<close>

lemma not_increasing_iff_pair:
  fixes st :: "('a::linorder) store"
  shows "\<not> bins_strictly_increasing st bins \<longleftrightarrow>
    (\<exists>b < num_batches bins. \<exists>k. Suc k < last_dim bins \<and>
       batch_segment st bins b ! k \<ge> batch_segment st bins b ! Suc k)"
  by (auto simp: bins_strictly_increasing_iff not_less)

text \<open>
  Claim C1. On a well-formed call whose bin-edge segments are all strictly increasing,
  the forward call succeeds and, for every linear index \<open>i\<close> of the output, element \<open>i\<close>
  of the output is the number of edges in the segment of the batch of \<open>data[i]\<close> that are
  strictly below \<open>data[i]\<close> when \<open>right\<close> is true, and the number of edges below or equal
  to \<open>data[i]\<close> when \<open>right\<close> is false, cast to the configured output type.
\<close>

theorem forward_counts_edges:
  fixes st :: "('a::linorder) store"
  assumes "well_formed attrs data bins out st"
    and "bins_strictly_increasing st bins"
    and "i < Size out"
  shows "\<exists>st'. DigitizeOpForward attrs [data, bins] [out] st = (None, st') \<and>
      st' (dptr out) ! i =
        OVal (static_cast_OType (otype attrs)
          (int (length (filter (\<lambda>e. if right attrs then e < data_value st data i
                                       else e \<le> data_value st data i)
                  (batch_segment st bins (i div last_dim data))))))"
  using forward_run [OF assms(1,2)] assms(3)
  by (auto simp: bucket_def count_edges_def)

theorem forward_counts_edges_witness:
  "well_formed left_attrs rows_data rows_bins rows_out rows_store \<and>
   bins_strictly_increasing rows_store rows_bins \<and> 4 < Size rows_out \<and>
   (\<exists>st'. DigitizeOpForward left_attrs [rows_data, rows_bins] [rows_out] rows_store = (None, st') \<and>
      st' (dptr rows_out) ! 4 = OVal 2) \<and>
   well_formed right_attrs rows_data rows_bins rows_out rows_store \<and>
   (\<exists>st'. DigitizeOpForward right_attrs [rows_data, rows_bins] [rows_out] rows_store = (None, st') \<and>
      st' (dptr rows_out) ! 4 = OVal 1)"
proof -
  have i: "4 < Size rows_out"
    by (simp add: Size_def rows_defs)
  have "\<exists>st'. DigitizeOpForward left_attrs [rows_data, rows_bins] [rows_out] rows_store = (None, st') \<and>
      st' (dptr rows_out) ! 4 = OVal 2"
    using forward_counts_edges [OF rows_well_formed(1) rows_increasing(1) i] rows_buckets(1)
    by (simp add: bucket_def count_edges_def left_attrs_def)
  moreover have "\<exists>st'. DigitizeOpForward right_attrs [rows_data, rows_bins] [rows_out] rows_store = (None, st') \<and>
      st' (dptr rows_out) ! 4 = OVal 1"
    using forward_counts_edges [OF rows_well_formed(2) rows_increasing(1) i] rows_buckets(2)
    by (simp add: bucket_def count_edges_def right_attrs_def)
  ultimately show ?thesis
    using rows_well_formed(1,2) rows_increasing(1) i by blast
qed

text \<open>
  Claim C2. A well-formed forward call fails with the validation error exactly when some
  batch's segment of \<open>bins\<close> has an adjacent pair that does not increase; in terms of
  the flat buffer, when \<open>bins[i] \<ge> bins[i+1]\<close> for some \<open>i\<close> whose successor is not the
  start of the next segment. When it fails so, the store is the one the call started
  from: no element of the output has been written.
\<close>

theorem validation_error_iff:
  fixes st :: "('a::linorder) store"
  assumes "well_formed attrs data bins out st"
  shows "(fst (DigitizeOpForward attrs [data, bins] [out] st) = Some ValidationError \<longleftrightarrow>
      (\<exists>b < num_batches bins. \<exists>k. Suc k < last_dim bins \<and>
         batch_segment st bins b ! k \<ge> batch_segment st bins b ! Suc k)) \<and>
    (fst (DigitizeOpForward attrs [data, bins] [out] st) = Some ValidationError \<longleftrightarrow>
      (\<exists>i < Size bins. (i + 1) mod last_dim bins \<noteq> 0 \<and>
         the_DVal (st (dptr bins) ! i) \<ge> the_DVal (st (dptr bins) ! (i + 1)))) \<and>
    (fst (DigitizeOpForward attrs [data, bins] [out] st) = Some ValidationError \<longrightarrow>
      snd (DigitizeOpForward attrs [data, bins] [out] st) = st)"
proof -
  have run: "fst (DigitizeOpForward attrs [data, bins] [out] st) = Some ValidationError \<longleftrightarrow>
      \<not> bins_strictly_increasing st bins"
  proof (cases "bins_strictly_increasing st bins")
    case True
    then show ?thesis
      using forward_run [OF assms True] by auto
  next
    case False
    then show ?thesis
      by (simp add: DigitizeOpForward_well_formed [OF assms])
  qed
  have unchanged: "\<not> bins_strictly_increasing st bins \<Longrightarrow>
      snd (DigitizeOpForward attrs [data, bins] [out] st) = st"
    by (simp add: DigitizeOpForward_well_formed [OF assms])
  have segs: "\<not> bins_strictly_increasing st bins \<longleftrightarrow>
      (\<exists>b < num_batches bins. \<exists>k. Suc k < last_dim bins \<and>
         batch_segment st bins b ! k \<ge> batch_segment st bins b ! Suc k)"
    by (rule not_increasing_iff_pair)
  have flat: "\<not> bins_strictly_increasing st bins \<longleftrightarrow>
      (\<exists>i < Size bins. (i + 1) mod last_dim bins \<noteq> 0 \<and>
         the_DVal (st (dptr bins) ! i) \<ge> the_DVal (st (dptr bins) ! (i + 1)))"
    by (auto simp: bins_strictly_increasing_flat [OF assms] not_less)
  show ?thesis
    using run unchanged segs flat by simp
qed

theorem validation_error_iff_witness:
  "well_formed left_attrs rows_data rows_bins rows_out flat_store \<and>
   1 < Size rows_bins \<and> (1 + 1) mod last_dim rows_bins \<noteq> 0 \<and>
   the_DVal (flat_store (dptr rows_bins) ! 1) \<ge> the_DVal (flat_store (dptr rows_bins) ! (1 + 1)) \<and>
   DigitizeOpForward left_attrs [rows_data, rows_bins] [rows_out] flat_store = (Some ValidationError, flat_store) \<and>
   well_formed left_attrs rows_data rows_bins rows_out rows_store \<and>
   fst (DigitizeOpForward left_attrs [rows_data, rows_bins] [rows_out] rows_store) \<noteq> Some ValidationError"
proof -
  have pair: "1 < Size rows_bins" "(1 + 1) mod last_dim rows_bins \<noteq> 0"
    "the_DVal (flat_store (dptr rows_bins) ! 1) \<ge> the_DVal (flat_store (dptr rows_bins) ! (1 + 1))"
    by (simp_all add: Size_def last_dim_def rows_defs)
  then have "\<exists>i < Size rows_bins. (i + 1) mod last_dim rows_bins \<noteq> 0 \<and>
      the_DVal (flat_store (dptr rows_bins) ! i) \<ge> the_DVal (flat_store (dptr rows_bins) ! (i + 1))"
    by blast
  then have "fst (DigitizeOpForward left_attrs [rows_data, rows_bins] [rows_out] flat_store) = Some ValidationError"
    and "snd (DigitizeOpForward left_attrs [rows_data, rows_bins] [rows_out] flat_store) = flat_store"
    using validation_error_iff [OF rows_well_formed(4)] by blast+
  then have bad: "DigitizeOpForward left_attrs [rows_data, rows_bins] [rows_out] flat_store = (Some ValidationError, flat_store)"
    by (simp add: prod_eq_iff)
  have "\<not> (\<exists>b < num_batches rows_bins. \<exists>k. Suc k < last_dim rows_bins \<and>
         batch_segment rows_store rows_bins b ! k \<ge> batch_segment rows_store rows_bins b ! Suc k)"
    using rows_increasing(1) not_increasing_iff_pair [of rows_store rows_bins] by blast
  then have good: "fst (DigitizeOpForward left_attrs [rows_data, rows_bins] [rows_out] rows_store) \<noteq> Some ValidationError"
    using validation_error_iff [OF rows_well_formed(1)] by blast
  show ?thesis
    using pair bad good rows_well_formed(1,4) by blast
qed

text \<open>
  Claim C7. On a well-formed call, for every linear index \<open>i\<close> of the output, the
  forward kernel computes a bucket index (the value before the cast to the output type)
  between 0 and the last dimension of \<open>bins\<close>, both included.
\<close>

theorem bucket_index_range:
  fixes st :: "('a::linorder) store"
  assumes "well_formed attrs data bins out st" and "i < Size out"
  shows "\<exists>index. ForwardKernel_index i (dptr data) (dptr bins) (last_dim data) (last_dim bins)
                    (right attrs) st = Inr index \<and>
      0 \<le> index \<and> index \<le> int (last_dim bins)"
  using well_formed_index [OF assms] assms(1)
  by (intro ForwardKernel_index_total) (simp_all add: well_formed_def)

theorem bucket_index_range_witness:
  "well_formed left_attrs rows_data rows_bins rows_out rows_store \<and> 2 < Size rows_out \<and>
   ForwardKernel_index 2 (dptr rows_data) (dptr rows_bins) (last_dim rows_data) (last_dim rows_bins)
      (right left_attrs) rows_store = Inr 4 \<and> (0::int) \<le> 4 \<and> 4 \<le> int (last_dim rows_bins)"
proof -
  have i: "2 < Size rows_out"
    by (simp add: Size_def rows_defs)
  have "ForwardKernel_index 2 (dptr rows_data) (dptr rows_bins) (last_dim rows_data) (last_dim rows_bins)
      (right left_attrs) rows_store = Inr 4"
    by (simp add: ForwardKernel_index_def read_DType_def last_dim_def rows_defs
        lower_bound.simps upper_bound.simps)
  then show ?thesis
    using bucket_index_range [OF rows_well_formed(1) i] rows_well_formed(1) i by simp
qed

lemma ForwardKernel_Map_total:
  fixes st :: "('a::linorder) store"
  assumes "well_formed attrs data bins out st" and "i < Size out"
  shows "\<exists>st'. ForwardKernel_Map (otype attrs) (dptr data) (dptr out) (dptr bins)
            (last_dim data) (last_dim bins) (right attrs) i st = Inr st'"
proof -
  have "\<exists>index. ForwardKernel_index i (dptr data) (dptr bins) (last_dim data) (last_dim bins)
                    (right attrs) st = Inr index \<and> 0 \<le> index \<and> index \<le> int (last_dim bins)"
    using well_formed_index [OF assms] assms(1)
    by (intro ForwardKernel_index_total) (simp_all add: well_formed_def)
  then show ?thesis
    using well_formed_index(5) [OF assms]
    by (auto simp: ForwardKernel_Map_def write_OType_def)
qed

lemma CheckMonotonicKernel_Map_total:
  fixes st :: "('a::linorder) store"
  assumes "well_formed attrs data bins out st" and "i < Size bins"
  shows "last_dim bins \<noteq> 0"
    and "last_dim bins dvd Size bins"
    and "(i + 1) mod last_dim bins \<noteq> 0 \<longrightarrow> i + 1 < length (st (dptr bins))"
    and "\<exists>m'. CheckMonotonicKernel_Map st (last_dim bins) (dptr bins) i m = Inr m'"
proof -
  have size: "Size bins = num_batches data * last_dim bins"
    by (rule well_formed_sizes(2) [OF assms(1)])
  have len: "length (st (dptr bins)) = Size bins" and dv: "list_all is_DVal (st (dptr bins))"
    using assms(1) by (simp_all add: well_formed_def)
  show L: "last_dim bins \<noteq> 0"
    using assms(2) size by (cases "last_dim bins = 0") simp_all
  show dvd: "last_dim bins dvd Size bins"
    using size by simp
  show "(i + 1) mod last_dim bins \<noteq> 0 \<longrightarrow> i + 1 < length (st (dptr bins))"
    using successor_in_bounds [OF dvd assms(2)] len by simp
  have "CheckMonotonicKernel_Map st (last_dim bins) (dptr bins) i m =
      Inr (m \<and> ((i + 1) mod last_dim bins = 0 \<or>
        the_DVal (st (dptr bins) ! i) < the_DVal (st (dptr bins) ! (i + 1))))"
    using L dvd assms(2) len dv by (intro CheckMonotonicKernel_Map_eval) simp_all
  then show "\<exists>m'. CheckMonotonicKernel_Map st (last_dim bins) (dptr bins) i m = Inr m'"
    by blast
qed

text \<open>
  Claim C9. On a well-formed call no kernel invocation reads outside a buffer or divides
  by zero. For every index \<open>i\<close> below the size of \<open>bins\<close> the last dimension of \<open>bins\<close>
  is not zero and divides that size, the element \<open>i + 1\<close> exists whenever \<open>i + 1\<close> is not
  a multiple of the last dimension, and the monotonicity kernel returns a flag. For every
  index below the size of the output the last dimension of \<open>data\<close> is not zero and the
  forward kernel returns a store. The whole call ends normally or with the validation
  error, never with a fault.
\<close>

theorem kernels_total:
  fixes st :: "('a::linorder) store"
  assumes "well_formed attrs data bins out st"
  shows "(\<forall>i < Size bins. last_dim bins \<noteq> 0 \<and> last_dim bins dvd Size bins \<and>
            ((i + 1) mod last_dim bins \<noteq> 0 \<longrightarrow> i + 1 < length (st (dptr bins))) \<and>
            (\<forall>m. \<exists>m'. CheckMonotonicKernel_Map st (last_dim bins) (dptr bins) i m = Inr m')) \<and>
         (\<forall>i < Size out. last_dim data \<noteq> 0 \<and>
            (\<exists>st'. ForwardKernel_Map (otype attrs) (dptr data) (dptr out) (dptr bins)
                      (last_dim data) (last_dim bins) (right attrs) i st = Inr st')) \<and>
         (fst (DigitizeOpForward attrs [data, bins] [out] st) = None \<or>
          fst (DigitizeOpForward attrs [data, bins] [out] st) = Some ValidationError)"
proof (intro conjI allI impI)
  fix i assume i: "i < Size bins"
  show "last_dim bins \<noteq> 0" "last_dim bins dvd Size bins"
    by (rule CheckMonotonicKernel_Map_total [OF assms i])+
  show "\<exists>m'. CheckMonotonicKernel_Map st (last_dim bins) (dptr bins) i m = Inr m'" for m
    by (rule CheckMonotonicKernel_Map_total [OF assms i])
  assume "(i + 1) mod last_dim bins \<noteq> 0"
  then show "i + 1 < length (st (dptr bins))"
    using CheckMonotonicKernel_Map_total(3) [OF assms i] by simp
next
  fix i assume i: "i < Size out"
  show "last_dim data \<noteq> 0"
    using well_formed_index(3) [OF assms i] by simp
  show "\<exists>st'. ForwardKernel_Map (otype attrs) (dptr data) (dptr out) (dptr bins)
                      (last_dim data) (last_dim bins) (right attrs) i st = Inr st'"
    by (rule ForwardKernel_Map_total [OF assms i])
next
  show "fst (DigitizeOpForward attrs [data, bins] [out] st) = None \<or>
        fst (DigitizeOpForward attrs [data, bins] [out] st) = Some ValidationError"
  proof (cases "bins_strictly_increasing st bins")
    case True
    then show ?thesis
      using forward_run [OF assms True] by auto
  next
    case False
    then show ?thesis
      by (simp add: DigitizeOpForward_well_formed [OF assms])
  qed
qed

theorem kernels_total_witness:
  "well_formed left_attrs rows_data rows_bins rows_out rows_store \<and>
   2 < Size rows_bins \<and> (2 + 1) mod last_dim rows_bins \<noteq> 0 \<and>
   2 + 1 < length (rows_store (dptr rows_bins)) \<and> last_dim rows_bins \<noteq> 0 \<and>
   CheckMonotonicKernel_Map rows_store (last_dim rows_bins) (dptr rows_bins) 2 True = Inr True \<and>
   5 < Size rows_out \<and> last_dim rows_data \<noteq> 0 \<and>
   (\<exists>st'. ForwardKernel_Map (otype left_attrs) (dptr rows_data) (dptr rows_out) (dptr rows_bins)
      (last_dim rows_data) (last_dim rows_bins) (right left_attrs) 5 rows_store = Inr st') \<and>
   fst (DigitizeOpForward left_attrs [rows_data, rows_bins] [rows_out] rows_store) = None"
proof -
  have i: "2 < Size rows_bins" "(2 + 1) mod last_dim rows_bins \<noteq> 0" "5 < Size rows_out"
    by (simp_all add: Size_def last_dim_def rows_defs)
  have chk: "CheckMonotonicKernel_Map rows_store (last_dim rows_bins) (dptr rows_bins) 2 True = Inr True"
    by (simp add: CheckMonotonicKernel_Map_def read_DType_def last_dim_def rows_defs)
  have run: "fst (DigitizeOpForward left_attrs [rows_data, rows_bins] [rows_out] rows_store) = None"
    using forward_run [OF rows_well_formed(1) rows_increasing(1)] by auto
  have bins: "\<forall>i < Size rows_bins. last_dim rows_bins \<noteq> 0 \<and> last_dim rows_bins dvd Size rows_bins \<and>
      ((i + 1) mod last_dim rows_bins \<noteq> 0 \<longrightarrow> i + 1 < length (rows_store (dptr rows_bins))) \<and>
      (\<forall>m. \<exists>m'. CheckMonotonicKernel_Map rows_store (last_dim rows_bins) (dptr rows_bins) i m = Inr m')"
    and out: "\<forall>i < Size rows_out. last_dim rows_data \<noteq> 0 \<and>
      (\<exists>st'. ForwardKernel_Map (otype left_attrs) (dptr rows_data) (dptr rows_out) (dptr rows_bins)
         (last_dim rows_data) (last_dim rows_bins) (right left_attrs) i rows_store = Inr st')"
    using kernels_total [OF rows_well_formed(1)] by blast+
  have "last_dim rows_bins \<noteq> 0" "2 + 1 < length (rows_store (dptr rows_bins))"
    using bins [rule_format, OF i(1)] i(2) by blast+
  moreover have "last_dim rows_data \<noteq> 0"
    "\<exists>st'. ForwardKernel_Map (otype left_attrs) (dptr rows_data) (dptr rows_out) (dptr rows_bins)
         (last_dim rows_data) (last_dim rows_bins) (right left_attrs) 5 rows_store = Inr st'"
    using out [rule_format, OF i(3)] by blast+
  ultimately show ?thesis
    using i chk run rows_well_formed(1) by blast
qed

text \<open>
  Claim C8. On a well-formed call with strictly increasing segments, running the forward
  call with the output placed on the buffer of \<open>data\<close> leaves in that buffer the very
  values that a run with a separate output buffer leaves in the output. The registration
  offers this sharing of input 0 and output 0.
\<close>

theorem in_place_same_output:
  fixes st :: "('a::linorder) store"
  assumes "well_formed attrs data bins out st"
    and "bins_strictly_increasing st bins"
    and "dptr out \<noteq> dptr data"
    and "dptr data \<noteq> dptr bins"
  shows "\<exists>st1 st2.
      DigitizeOpForward attrs [data, bins] [out] st = (None, st1) \<and>
      DigitizeOpForward attrs [data, bins] [out\<lparr>dptr := dptr data\<rparr>] st = (None, st2) \<and>
      st2 (dptr data) = st1 (dptr out) \<and>
      (0, 0) \<in> set (FInplaceOption digitize)"
proof -
  let ?inplace = "out\<lparr>dptr := dptr data\<rparr>"
  have wf: "well_formed attrs data bins ?inplace st"
    using assms(1,4) by (simp add: well_formed_def Size_def)
  obtain st1 where st1: "DigitizeOpForward attrs [data, bins] [out] st = (None, st1)"
    "length (st1 (dptr out)) = Size out"
    "\<forall>i < Size out. st1 (dptr out) ! i =
       OVal (static_cast_OType (otype attrs) (int (bucket attrs st data bins i)))"
    using forward_run [OF assms(1,2)] by blast
  obtain st2 where st2: "DigitizeOpForward attrs [data, bins] [?inplace] st = (None, st2)"
    "length (st2 (dptr ?inplace)) = Size ?inplace"
    "\<forall>i < Size ?inplace. st2 (dptr ?inplace) ! i =
       OVal (static_cast_OType (otype attrs) (int (bucket attrs st data bins i)))"
    using forward_run [OF wf assms(2)] by blast
  have "st2 (dptr data) = st1 (dptr out)"
    using st1(2,3) st2(2,3) by (intro nth_equalityI) (simp_all add: Size_def)
  then show ?thesis
    using st1(1) st2(1) by (simp add: digitize_def)
qed

theorem in_place_same_output_witness:
  "well_formed left_attrs rows_data rows_bins rows_out rows_store \<and>
   bins_strictly_increasing rows_store rows_bins \<and>
   dptr rows_out \<noteq> dptr rows_data \<and> dptr rows_data \<noteq> dptr rows_bins \<and>
   (\<exists>st1 st2.
      DigitizeOpForward left_attrs [rows_data, rows_bins] [rows_out] rows_store = (None, st1) \<and>
      DigitizeOpForward left_attrs [rows_data, rows_bins] [rows_alias] rows_store = (None, st2) \<and>
      st2 (dptr rows_data) = st1 (dptr rows_out))"
proof -
  have ptr: "dptr rows_out \<noteq> dptr rows_data" "dptr rows_data \<noteq> dptr rows_bins"
    by (simp_all add: rows_defs)
  have inplace: "rows_out\<lparr>dptr := dptr rows_data\<rparr> = rows_alias"
    by (simp add: rows_defs)
  obtain st1 st2 where
    "DigitizeOpForward left_attrs [rows_data, rows_bins] [rows_out] rows_store = (None, st1)"
    "DigitizeOpForward left_attrs [rows_data, rows_bins] [rows_alias] rows_store = (None, st2)"
    "st2 (dptr rows_data) = st1 (dptr rows_out)"
    using in_place_same_output [OF rows_well_formed(1) rows_increasing(1) ptr]
    unfolding inplace by blast
  then show ?thesis
    using rows_well_formed(1) rows_increasing(1) ptr by blast
qed

text \<open>
  Claim C6, as amended. On a well-formed call with strictly increasing segments, a value
  of \<open>data\<close> equal to the edge at position \<open>k\<close> of its batch goes to the bin on the left
  of that edge (bin \<open>k\<close>, the edge closing the bin on its right) when \<open>right\<close> is true, and
  to the bin on the right of that edge (bin \<open>k + 1\<close>, the edge opening the bin on its
  left) when \<open>right\<close> is false.
\<close>

theorem edge_tie_break:
  fixes st :: "('a::linorder) store"
  assumes "well_formed attrs data bins out st"
    and "bins_strictly_increasing st bins"
    and "i < Size out"
    and "k < last_dim bins"
    and "data_value st data i = batch_segment st bins (i div last_dim data) ! k"
  shows "\<exists>st'. DigitizeOpForward attrs [data, bins] [out] st = (None, st') \<and>
      st' (dptr out) ! i =
        OVal (static_cast_OType (otype attrs)
          (int (if right attrs then bin_left_of_edge k else bin_right_of_edge k)))"
proof -
  let ?seg = "batch_segment st bins (i div last_dim data)"
  have "i div last_dim data < num_batches bins"
    by (rule well_formed_index(6) [OF assms(1,3)])
  then have inc: "strictly_increasing ?seg"
    using assms(2) by (simp add: bins_strictly_increasing_def list_all_iff)
  have k: "k < length ?seg"
    using assms(4) by (simp add: batch_segment_def)
  have "bucket attrs st data bins i = (if right attrs then bin_left_of_edge k else bin_right_of_edge k)"
    using count_edges_at_edge [OF inc k] assms(5)
    by (simp add: bucket_def bin_left_of_edge_def bin_right_of_edge_def)
  then show ?thesis
    using forward_run [OF assms(1,2)] assms(3) by auto
qed

theorem edge_tie_break_witness:
  "well_formed left_attrs rows_data rows_bins rows_out rows_store \<and>
   well_formed right_attrs rows_data rows_bins rows_out rows_store \<and>
   bins_strictly_increasing rows_store rows_bins \<and> 4 < Size rows_out \<and> 1 < last_dim rows_bins \<and>
   data_value rows_store rows_data 4 = batch_segment rows_store rows_bins (4 div last_dim rows_data) ! 1 \<and>
   (\<exists>st'. DigitizeOpForward left_attrs [rows_data, rows_bins] [rows_out] rows_store = (None, st') \<and>
      st' (dptr rows_out) ! 4 = OVal 2) \<and>
   (\<exists>st'. DigitizeOpForward right_attrs [rows_data, rows_bins] [rows_out] rows_store = (None, st') \<and>
      st' (dptr rows_out) ! 4 = OVal 1)"
proof -
  have h: "4 < Size rows_out" "1 < last_dim rows_bins"
    "data_value rows_store rows_data 4 = batch_segment rows_store rows_bins (4 div last_dim rows_data) ! 1"
    by (simp_all add: quantity_defs rows_defs)
  have "\<exists>st'. DigitizeOpForward left_attrs [rows_data, rows_bins] [rows_out] rows_store = (None, st') \<and>
      st' (dptr rows_out) ! 4 = OVal 2"
    using edge_tie_break [OF rows_well_formed(1) rows_increasing(1) h]
    by (simp add: left_attrs_def bin_right_of_edge_def)
  moreover have "\<exists>st'. DigitizeOpForward right_attrs [rows_data, rows_bins] [rows_out] rows_store = (None, st') \<and>
      st' (dptr rows_out) ! 4 = OVal 1"
    using edge_tie_break [OF rows_well_formed(2) rows_increasing(1) h]
    by (simp add: right_attrs_def bin_left_of_edge_def)
  ultimately show ?thesis
    using rows_well_formed(1,2) rows_increasing(1) h by blast
qed

text \<open>
  Claim C6 as the specification words it has the two directions exchanged. In the
  tie-break scenario the value 2.0 is the edge at position 1; with \<open>right\<close> true it does
  not go to the bin on the right of that edge, and with \<open>right\<close> false it does not go to
  the bin on its left.
\<close>

theorem edge_tie_break_counterexample:
  "data_value tie_store tie_data 0 = batch_segment tie_store tie_bins 0 ! 1 \<and>
   snd (DigitizeOpForward \<lparr> right = True, otype = kInt32 \<rparr> [tie_data, tie_bins] [tie_out kInt32] tie_store)
       (dptr (tie_out kInt32)) ! 0 = OVal 1 \<and>
   OVal 1 \<noteq> (OVal (int (bin_right_of_edge 1)) :: real cell) \<and>
   snd (DigitizeOpForward \<lparr> right = False, otype = kInt32 \<rparr> [tie_data, tie_bins] [tie_out kInt32] tie_store)
       (dptr (tie_out kInt32)) ! 0 = OVal 2 \<and>
   OVal 2 \<noteq> (OVal (int (bin_left_of_edge 1)) :: real cell)"
  by (simp add: forward_defs quantity_defs tie_store_def tie_data_def tie_bins_def tie_out_def
      lower_bound.simps upper_bound.simps upt_rec bin_left_of_edge_def bin_right_of_edge_def)

subsection \<open>The tie-break scenario\<close>

text \<open>
  Claim C3. For the single batch \<open>data = [2.0]\<close> with \<open>bins = [1.0, 2.0, 3.0]\<close> the
  forward call succeeds and leaves \<open>[2]\<close> in the output when \<open>right\<close> is false and
  \<open>[1]\<close> when \<open>right\<close> is true, for each of the four output types.
\<close>

theorem tie_break_scenario:
  "DigitizeOpForward \<lparr> right = False, otype = OType \<rparr> [tie_data, tie_bins] [tie_out OType] tie_store
     = (None, tie_store(2 := [OVal 2])) \<and>
   DigitizeOpForward \<lparr> right = True, otype = OType \<rparr> [tie_data, tie_bins] [tie_out OType] tie_store
     = (None, tie_store(2 := [OVal 1]))"
  by (cases OType)
    (simp_all add: forward_defs Size_def tie_store_def tie_data_def tie_bins_def tie_out_def
      lower_bound.simps upper_bound.simps upt_rec)

end
